theory Spec2Isabelle
  imports Main "HOL-Library.AList" "HOL-Library.Multiset" "HOL-Library.Char_ord" "HOL-Library.List_Lexorder"
begin

section \<open>The heap of directory entries\<close>

text \<open>
  A \<^verbatim>\<open>*Dirent\<close> is an address into a heap of entries; the heap is a list and an address
  is an index into it. \<^verbatim>\<open>New\<close> and the allocations of \<^verbatim>\<open>Add\<close> and \<^verbatim>\<open>Make\<close> append to
  the heap. A nil pointer is \<open>None\<close>. The Go map \<^verbatim>\<open>map[string]*Dirent\<close> is an
  association list with distinct keys; a nil map is \<open>None\<close>. The order of the association
  list stands for one iteration order of the map, which Go leaves unspecified.
\<close>

type_synonym addr = nat

record Dirent =
  name :: string
  parent :: "addr option"
  children :: "(string \<times> addr) list option"

type_synonym heap = "Dirent list"

text \<open>Runtime faults: the explicit panic of \<^verbatim>\<open>Unlink\<close>, the assignment to an entry of a
  nil map, and slicing below zero.\<close>

datatype fault = WrongNameForChild | NilMapAssign | SliceBounds

text \<open>A call either returns a value and leaves a heap, or panics and leaves a heap.
  A Go \<^verbatim>\<open>error\<close> is its message; \<^verbatim>\<open>nil\<close> is \<open>None\<close>.\<close>

datatype 'a outcome = Return 'a heap | Panic fault heap

type_synonym error = string

text \<open>Reading a map: a nil map reads as an empty one.\<close>

definition entries :: "Dirent \<Rightarrow> (string \<times> addr) list" where
  "entries e = (case children e of None \<Rightarrow> [] | Some al \<Rightarrow> al)"

definition Child :: "heap \<Rightarrow> addr \<Rightarrow> string \<Rightarrow> addr option" where
  "Child h d nm = map_of (entries (h ! d)) nm"

definition New :: "string \<Rightarrow> heap \<Rightarrow> addr \<times> heap" where
  "New nm h = (length h, h @ [\<lparr>name = nm, parent = None, children = None\<rparr>])"

definition String :: "Dirent \<Rightarrow> string" where
  "String e = (if name e = [] then ''/'' else name e)"

definition Size :: "heap \<Rightarrow> addr \<Rightarrow> nat" where
  "Size h d = length (entries (h ! d))"

section \<open>Structural mutation\<close>

definition Add :: "heap \<Rightarrow> addr \<Rightarrow> string \<Rightarrow> (error + addr) outcome" where
  "Add h d nm =
     (if nm = [] \<or> nm = ''/'' then Return (Inl ''invalid name'') h
      else if Child h d nm \<noteq> None then Return (Inl ''entry already exists'') h
      else
        let newDirent = length h;
            h1 = h @ [\<lparr>name = nm, parent = Some d, children = None\<rparr>];
            h2 = (if children (h1 ! d) = None
                  then h1[d := (h1 ! d)\<lparr>children := Some []\<rparr>] else h1);
            h3 = h2[d := (h2 ! d)\<lparr>children :=
                   Some (AList.update nm newDirent (entries (h2 ! d)))\<rparr>]
        in Return (Inr newDirent) h3)"

text \<open>The first loop of \<^verbatim>\<open>Make\<close>: the first rejected name gives the error.\<close>

fun Make_check :: "heap \<Rightarrow> addr \<Rightarrow> string list \<Rightarrow> error option" where
  "Make_check h d [] = None"
| "Make_check h d (nm # nms) =
     (if nm = [] \<or> nm = ''/'' then Some (''invalid name: '' @ nm)
      else if Child h d nm \<noteq> None then Some (''entry already exists: '' @ nm)
      else Make_check h d nms)"

text \<open>The second loop of \<^verbatim>\<open>Make\<close>: one allocation and one map assignment per name.\<close>

fun Make_create :: "heap \<Rightarrow> addr \<Rightarrow> string list \<Rightarrow> heap" where
  "Make_create h d [] = h"
| "Make_create h d (nm # nms) =
     (let newDirent = length h;
          h1 = h @ [\<lparr>name = nm, parent = Some d, children = None\<rparr>];
          h2 = h1[d := (h1 ! d)\<lparr>children :=
                 Some (AList.update nm newDirent (entries (h1 ! d)))\<rparr>]
      in Make_create h2 d nms)"

definition Make :: "heap \<Rightarrow> addr \<Rightarrow> string list \<Rightarrow> error option outcome" where
  "Make h d nms =
     (case Make_check h d nms of
        Some e \<Rightarrow> Return (Some e) h
      | None \<Rightarrow>
          let h1 = (if children (h ! d) = None
                    then h[d := (h ! d)\<lparr>children := Some []\<rparr>] else h)
          in Return None (Make_create h1 d nms))"

definition Unlink :: "heap \<Rightarrow> addr \<Rightarrow> bool outcome" where
  "Unlink h d =
     (case parent (h ! d) of
        None \<Rightarrow> Return False h
      | Some p \<Rightarrow>
          let h1 = h[d := (h ! d)\<lparr>parent := None\<rparr>] in
          (case Child h1 p (name (h1 ! d)) of
             None \<Rightarrow> Return False h1
           | Some ch \<Rightarrow>
               if d \<noteq> ch then Panic WrongNameForChild h1
               else Return True
                      (h1[p := (h1 ! p)\<lparr>children :=
                         Some (AList.delete (name (h1 ! d)) (entries (h1 ! p)))\<rparr>])))"

definition Move :: "heap \<Rightarrow> addr \<Rightarrow> addr \<Rightarrow> error option outcome" where
  "Move h d dst =
     (if name (h ! d) = [] then Return (Some ''cannot move unnamed directory'') h
      else if Child h dst (name (h ! d)) \<noteq> None
        then Return (Some ''entry already exists at destination'') h
      else
        (case Unlink h d of
           Panic f h1 \<Rightarrow> Panic f h1
         | Return b h1 \<Rightarrow>
             (case children (h1 ! dst) of
                None \<Rightarrow> Panic NilMapAssign h1
              | Some al \<Rightarrow>
                  let h2 = h1[dst := (h1 ! dst)\<lparr>children :=
                             Some (AList.update (name (h1 ! d)) d al)\<rparr>]
                  in Return None (h2[d := (h2 ! d)\<lparr>parent := Some dst\<rparr>]))))"

definition Rename :: "heap \<Rightarrow> addr \<Rightarrow> string \<Rightarrow> error option outcome" where
  "Rename h d nm0 =
     (let nm = (if nm0 = ''/'' then [] else nm0) in
      case parent (h ! d) of
        Some p \<Rightarrow>
          if nm = [] then Return (Some ''non-root directory must have name'') h
          else if Child h p nm \<noteq> None
            then Return (Some ''another entry with requested name exists in parent'') h
          else Return None (h[d := (h ! d)\<lparr>name := nm\<rparr>])
      | None \<Rightarrow> Return None (h[d := (h ! d)\<lparr>name := nm\<rparr>]))"

section \<open>Traversal and query\<close>

text \<open>\<^verbatim>\<open>Find\<close>: the queue is a list, \<^verbatim>\<open>Remove\<close> takes its head and \<^verbatim>\<open>Add\<close> appends.
  The loop ends only when the queue runs empty or a visited node has the name among its
  keys, so it is a partial function: \<open>None\<close> is a search that never returns, \<open>Some None\<close>
  is the result nil.\<close>

partial_function (option) Find_loop :: "heap \<Rightarrow> string \<Rightarrow> addr list \<Rightarrow> addr option option" where
  "Find_loop h nm nodes =
     (case nodes of
        [] \<Rightarrow> Some None
      | node # rest \<Rightarrow>
          (case Child h node nm of
             Some ch \<Rightarrow> Some (Some ch)
           | None \<Rightarrow> Find_loop h nm (rest @ map snd (entries (h ! node)))))"

definition Find :: "heap \<Rightarrow> addr \<Rightarrow> string \<Rightarrow> addr option option" where
  "Find h d nm = Find_loop h nm [d]"

definition Children :: "heap \<Rightarrow> addr \<Rightarrow> addr list" where
  "Children h d = (if Size h d = 0 then [] else map snd (entries (h ! d)))"

text \<open>The nodes at depth \<open>n\<close> below a node, along the children mappings, in the order in
  which a search level by level meets them.\<close>

fun level :: "heap \<Rightarrow> addr \<Rightarrow> nat \<Rightarrow> addr list" where
  "level h d 0 = [d]"
| "level h d (Suc n) = concat (map (\<lambda>a. map snd (entries (h ! a))) (level h d n))"

text \<open>The children of a node in the iteration order of its mapping.\<close>

abbreviation kids :: "heap \<Rightarrow> addr \<Rightarrow> addr list" where
  "kids h a \<equiv> map snd (entries (h ! a))"

text \<open>Every entry of every mapping points into the heap, at a node that carries the
  entry's key as its name.\<close>

definition wf_entries :: "heap \<Rightarrow> bool" where
  "wf_entries h =
     list_all (\<lambda>e. list_all (\<lambda>kc. snd kc < length h \<and> name (h ! snd kc) = fst kc) (entries e)) h"

text \<open>\<^verbatim>\<open>strings.Join\<close>.\<close>

fun Join :: "string list \<Rightarrow> string \<Rightarrow> string" where
  "Join [] sep = []"
| "Join (x # xs) sep = x @ concat (map (\<lambda>s. sep @ s) xs)"

text \<open>The first loop of \<^verbatim>\<open>PathDelim\<close> climbs the parent references; it does not end on a
  cycle of parents.\<close>

partial_function (option) PathDelim_up :: "heap \<Rightarrow> addr option \<Rightarrow> string list \<Rightarrow> string list option" where
  "PathDelim_up h p parts =
     (case p of
        None \<Rightarrow> Some parts
      | Some a \<Rightarrow> PathDelim_up h (parent (h ! a)) (parts @ [name (h ! a)]))"

text \<open>The second loop swaps the ends towards the middle.\<close>

function reverse_loop :: "string list \<Rightarrow> nat \<Rightarrow> nat \<Rightarrow> string list" where
  "reverse_loop parts lt rt =
     (if lt < rt then reverse_loop (parts[lt := parts ! rt, rt := parts ! lt]) (lt + 1) (rt - 1)
      else parts)"
  by pat_completeness auto
termination
  by (relation "measure (\<lambda>(parts, lt, rt). rt - lt)") auto

declare reverse_loop.simps [simp del]

definition PathDelim :: "heap \<Rightarrow> addr \<Rightarrow> string \<Rightarrow> string option" where
  "PathDelim h d delim =
     (case PathDelim_up h (parent (h ! d)) [name (h ! d)] of
        None \<Rightarrow> None
      | Some parts \<Rightarrow>
          let parts1 = reverse_loop parts 0 (length parts - 1);
              parts2 = (if parts1 ! 0 = delim then parts1[0 := []] else parts1)
          in Some (Join parts2 delim))"

definition Path :: "heap \<Rightarrow> addr \<Rightarrow> string option" where
  "Path h d = PathDelim h d ''/''"

section \<open>Ordering\<close>

text \<open>
  \<^verbatim>\<open>sort.Sort\<close> of the Go library, on a slice of at most twelve elements, is the insertion
  sort below: each element in turn is swapped towards the front while the comparison puts
  it before its left neighbour. The sorted prefix is kept in reverse, so that the
  neighbour is the head. Longer slices are sorted by another, also unstable, algorithm;
  for elements with pairwise different keys every sorting algorithm gives the same
  slice.
\<close>

fun sift :: "('a \<Rightarrow> 'a \<Rightarrow> bool) \<Rightarrow> 'a \<Rightarrow> 'a list \<Rightarrow> 'a list" where
  "sift lessf x [] = [x]"
| "sift lessf x (y # ys) = (if lessf x y then y # sift lessf x ys else x # y # ys)"

fun insertion_loop :: "('a \<Rightarrow> 'a \<Rightarrow> bool) \<Rightarrow> 'a list \<Rightarrow> 'a list \<Rightarrow> 'a list" where
  "insertion_loop lessf acc [] = rev acc"
| "insertion_loop lessf acc (x # xs) = insertion_loop lessf (sift lessf x acc) xs"

definition insertionSort :: "('a \<Rightarrow> 'a \<Rightarrow> bool) \<Rightarrow> 'a list \<Rightarrow> 'a list" where
  "insertionSort lessf xs = insertion_loop lessf [] xs"

text \<open>\<^verbatim>\<open>nodeSlice.Less\<close> compares the display strings, bytewise.\<close>

definition Less :: "heap \<Rightarrow> addr \<Rightarrow> addr \<Rightarrow> bool" where
  "Less h a b = (String (h ! a) < String (h ! b))"

definition Sort :: "heap \<Rightarrow> addr list \<Rightarrow> addr list" where
  "Sort h dSlice = insertionSort (Less h) dSlice"

text \<open>\<^verbatim>\<open>sort.Reverse\<close> swaps the arguments of the comparison.\<close>

definition SortReverse :: "heap \<Rightarrow> addr list \<Rightarrow> addr list" where
  "SortReverse h dSlice = insertionSort (\<lambda>a b. Less h b a) dSlice"

section \<open>Tree rendering\<close>

definition linkPfx :: string where "linkPfx = ''|-- ''"
definition contPfx :: string where "contPfx = ''|   ''"
definition endlPfx :: string where "endlPfx = ''`-- ''"
definition blnkPfx :: string where "blnkPfx = ''    ''"

text \<open>The loop of \<^verbatim>\<open>Tree\<close>. The slice \<open>nodes\<close> is a stack whose top is its last element;
  \<open>None\<close> is the nil sentinel. The variables \<open>pfx\<close>, \<open>ppfx\<close>, \<open>ps\<close> and \<open>ss\<close> are those of the
  source.\<close>

partial_function (option) Tree_loop ::
  "heap \<Rightarrow> addr option list \<Rightarrow> string \<Rightarrow> string \<Rightarrow> string list \<Rightarrow> string list
     \<Rightarrow> (fault + string list) option" where
  "Tree_loop h nodes pfx ppfx ps ss =
     (if nodes = [] then Some (Inr ss)
      else
        (case last nodes of
           None \<Rightarrow>
             if ps = [] then Some (Inl SliceBounds)
             else Tree_loop h (butlast nodes) pfx (Join (butlast ps) []) (butlast ps) ss
         | Some cur \<Rightarrow>
             if 0 < Size h cur
             then Tree_loop h
                    (butlast nodes @ [None] @ map Some (SortReverse h (Children h cur)))
                    linkPfx
                    (Join (ps @ [if (if length nodes = 1 \<or> nodes ! (length nodes - 2) = None
                                        then endlPfx else pfx) = endlPfx
                                 then blnkPfx else contPfx]) [])
                    (ps @ [if (if length nodes = 1 \<or> nodes ! (length nodes - 2) = None
                                  then endlPfx else pfx) = endlPfx
                           then blnkPfx else contPfx])
                    (ss @ [ppfx @ (if length nodes = 1 \<or> nodes ! (length nodes - 2) = None
                                   then endlPfx else pfx) @ name (h ! cur)])
             else Tree_loop h (butlast nodes)
                    (if length nodes = 1 \<or> nodes ! (length nodes - 2) = None
                     then endlPfx else pfx)
                    ppfx ps
                    (ss @ [ppfx @ (if length nodes = 1 \<or> nodes ! (length nodes - 2) = None
                                   then endlPfx else pfx) @ name (h ! cur)])))"

definition Tree :: "heap \<Rightarrow> addr \<Rightarrow> (fault + string) option" where
  "Tree h d =
     (case Tree_loop h (map Some (SortReverse h (Children h d))) linkPfx [] [] [name (h ! d)] of
        None \<Rightarrow> None
      | Some (Inl f) \<Rightarrow> Some (Inl f)
      | Some (Inr ss) \<Rightarrow> Some (Inr (Join ss [CHR 0x0A])))"

declare Find_loop.simps [code] PathDelim_up.simps [code] Tree_loop.simps [code]

section \<open>Paths and chains of Add calls\<close>

text \<open>\<open>path h d ns\<close>: following the parent references from \<open>d\<close> ends at a root, and \<open>ns\<close>
  are the names met, from that root down to \<open>d\<close>.\<close>

inductive path :: "heap \<Rightarrow> addr \<Rightarrow> string list \<Rightarrow> bool" where
  root: "d < length h \<Longrightarrow> parent (h ! d) = None \<Longrightarrow> path h d [name (h ! d)]"
| child: "d < length h \<Longrightarrow> parent (h ! d) = Some p \<Longrightarrow> path h p ns \<Longrightarrow>
          path h d (ns @ [name (h ! d)])"

text \<open>A run of \<^verbatim>\<open>Add\<close> calls that reaches a node from a starting node: \<open>Down nm\<close> adds
  a child \<open>nm\<close> to the node reached so far and goes on from that child; \<open>Side a nm\<close> is any
  other \<^verbatim>\<open>Add\<close> call in between, on an existing node \<open>a\<close>, failed or not. The run is
  \<open>None\<close> when a \<open>Down\<close> call fails. \<open>downs\<close> are the names added on the way down.\<close>

datatype step = Down string | Side addr string

fun Add_steps :: "heap \<Rightarrow> addr \<Rightarrow> step list \<Rightarrow> (addr \<times> heap) option" where
  "Add_steps h d [] = Some (d, h)"
| "Add_steps h d (Down nm # ss) =
     (case Add h d nm of Return (Inr c) h' \<Rightarrow> Add_steps h' c ss | _ \<Rightarrow> None)"
| "Add_steps h d (Side a nm # ss) =
     (if a < length h then (case Add h a nm of Return _ h' \<Rightarrow> Add_steps h' d ss | _ \<Rightarrow> None)
      else None)"

fun downs :: "step list \<Rightarrow> string list" where
  "downs [] = []"
| "downs (Down nm # ss) = nm # downs ss"
| "downs (Side a nm # ss) = downs ss"

section \<open>The invariants of the data model\<close>

text \<open>I1: every node with a parent is registered in the parent's mapping under its own
  name.\<close>

definition I1 :: "heap \<Rightarrow> bool" where
  "I1 h = list_all (\<lambda>n. case parent (h ! n) of None \<Rightarrow> True
                          | Some p \<Rightarrow> Child h p (name (h ! n)) = Some n) [0..<length h]"

text \<open>I2: the children of one node carry pairwise different names.\<close>

definition I2 :: "heap \<Rightarrow> bool" where
  "I2 h = list_all (\<lambda>e. distinct (map (\<lambda>kc. name (h ! snd kc)) (entries e))) h"

text \<open>I3: a node with a parent is named.\<close>

definition I3 :: "heap \<Rightarrow> bool" where
  "I3 h = list_all (\<lambda>e. case parent e of None \<Rightarrow> True | Some p \<Rightarrow> name e \<noteq> []) h"

text \<open>I4: following parent references from any node ends at a root, and a node with a
  parent occurs exactly once among all children mappings.\<close>

fun climb :: "heap \<Rightarrow> nat \<Rightarrow> addr option \<Rightarrow> addr option" where
  "climb h 0 p = p"
| "climb h (Suc n) p = (case p of None \<Rightarrow> None | Some a \<Rightarrow> climb h n (parent (h ! a)))"

definition I4 :: "heap \<Rightarrow> bool" where
  "I4 h = (list_all (\<lambda>n. climb h (length h) (Some n) = None) [0..<length h] \<and>
           list_all (\<lambda>n. case parent (h ! n) of None \<Rightarrow> True
                          | Some p \<Rightarrow> count_list (concat (map (\<lambda>e. map snd (entries e)) h)) n = 1)
                    [0..<length h])"

section \<open>Example heaps\<close>

text \<open>An unnamed root with one child \<open>A\<close>.\<close>

definition heap_A :: heap where
  "heap_A = [\<lparr>name = [], parent = None, children = Some [(''A'', 1)]\<rparr>,
             \<lparr>name = ''A'', parent = Some 0, children = None\<rparr>]"

text \<open>The same heap after \<open>A\<close> was renamed to \<open>B\<close>.\<close>

definition heap_B :: heap where
  "heap_B = [\<lparr>name = [], parent = None, children = Some [(''A'', 1)]\<rparr>,
             \<lparr>name = ''B'', parent = Some 0, children = None\<rparr>]"

text \<open>The chain \<open>.\<close> / \<open>A\<close> / \<open>Ax\<close> / \<open>Ax1\<close>.\<close>

definition heap_M :: heap where
  "heap_M = [\<lparr>name = ''.'', parent = None, children = Some [(''A'', 1)]\<rparr>,
             \<lparr>name = ''A'', parent = Some 0, children = Some [(''Ax'', 2)]\<rparr>,
             \<lparr>name = ''Ax'', parent = Some 1, children = Some [(''Ax1'', 3)]\<rparr>,
             \<lparr>name = ''Ax1'', parent = Some 2, children = None\<rparr>]"

text \<open>The chain after \<open>A\<close> was moved below its own child \<open>Ax\<close>.\<close>

definition heap_M' :: heap where
  "heap_M' = [\<lparr>name = ''.'', parent = None, children = Some []\<rparr>,
              \<lparr>name = ''A'', parent = Some 2, children = Some [(''Ax'', 2)]\<rparr>,
              \<lparr>name = ''Ax'', parent = Some 1, children = Some [(''Ax1'', 3), (''A'', 1)]\<rparr>,
              \<lparr>name = ''Ax1'', parent = Some 2, children = None\<rparr>]"

text \<open>The heap of \<open>A\<close> renamed to \<open>B\<close>, after a second child \<open>B\<close> was added to the root.\<close>

definition heap_W :: heap where
  "heap_W = [\<lparr>name = [], parent = None, children = Some [(''A'', 1), (''B'', 2)]\<rparr>,
             \<lparr>name = ''B'', parent = Some 0, children = None\<rparr>,
             \<lparr>name = ''B'', parent = Some 0, children = None\<rparr>]"

text \<open>The same heap with a further root \<open>X\<close> fresh from \<^verbatim>\<open>New\<close>.\<close>

definition heap_WX :: heap where
  "heap_WX = [\<lparr>name = [], parent = None, children = Some [(''A'', 1), (''B'', 2)]\<rparr>,
              \<lparr>name = ''B'', parent = Some 0, children = None\<rparr>,
              \<lparr>name = ''B'', parent = Some 0, children = None\<rparr>,
              \<lparr>name = ''X'', parent = None, children = None\<rparr>]"

text \<open>An unnamed root with one child \<open>A\<close>, and a second root \<open>X\<close> fresh from \<^verbatim>\<open>New\<close>.\<close>

definition heap_N :: heap where
  "heap_N = [\<lparr>name = [], parent = None, children = Some [(''A'', 1)]\<rparr>,
             \<lparr>name = ''A'', parent = Some 0, children = None\<rparr>,
             \<lparr>name = ''X'', parent = None, children = None\<rparr>]"

text \<open>The tree of the rendering test: \<open>.\<close> with \<open>A\<close> (\<open>Ax\<close>, \<open>Ay\<close> (\<open>Ay-1\<close>, \<open>Ay-2\<close>)) and
  \<open>B\<close> (\<open>Bx\<close>, \<open>By\<close>), in the order the test adds them.\<close>

definition heap_T :: heap where
  "heap_T = [\<lparr>name = ''.'', parent = None, children = Some [(''A'', 1), (''B'', 2)]\<rparr>,
             \<lparr>name = ''A'', parent = Some 0, children = Some [(''Ax'', 3), (''Ay'', 4)]\<rparr>,
             \<lparr>name = ''B'', parent = Some 0, children = Some [(''Bx'', 5), (''By'', 6)]\<rparr>,
             \<lparr>name = ''Ax'', parent = Some 1, children = None\<rparr>,
             \<lparr>name = ''Ay'', parent = Some 1, children = Some [(''Ay-1'', 7), (''Ay-2'', 8)]\<rparr>,
             \<lparr>name = ''Bx'', parent = Some 2, children = None\<rparr>,
             \<lparr>name = ''By'', parent = Some 2, children = None\<rparr>,
             \<lparr>name = ''Ay-1'', parent = Some 4, children = None\<rparr>,
             \<lparr>name = ''Ay-2'', parent = Some 4, children = None\<rparr>]"

text \<open>A root \<open>.\<close> with three children \<open>A\<close>, \<open>B\<close>, \<open>C\<close>, of which \<open>A\<close> has a child \<open>Ax\<close>.\<close>

definition heap_T3 :: heap where
  "heap_T3 = [\<lparr>name = ''.'', parent = None,
                children = Some [(''A'', 1), (''B'', 2), (''C'', 3)]\<rparr>,
              \<lparr>name = ''A'', parent = Some 0, children = Some [(''Ax'', 4)]\<rparr>,
              \<lparr>name = ''B'', parent = Some 0, children = None\<rparr>,
              \<lparr>name = ''C'', parent = Some 0, children = None\<rparr>,
              \<lparr>name = ''Ax'', parent = Some 1, children = None\<rparr>]"

text \<open>Two roots, one unnamed and one named \<open>/\<close>.\<close>

definition heap_S :: heap where
  "heap_S = [\<lparr>name = [], parent = None, children = None\<rparr>,
             \<lparr>name = ''/'', parent = None, children = None\<rparr>]"

text \<open>The heap of the test of \<^verbatim>\<open>Children\<close>: an unnamed root with \<open>Z\<close>, \<open>X\<close>, \<open>Y\<close>, \<open>A\<close>, \<open>C\<close>, \<open>B\<close>.\<close>

definition heap_C :: heap where
  "heap_C = [\<lparr>name = [], parent = None,
               children = Some [(''Z'', 1), (''X'', 2), (''Y'', 3), (''A'', 4), (''C'', 5), (''B'', 6)]\<rparr>,
             \<lparr>name = ''Z'', parent = Some 0, children = None\<rparr>,
             \<lparr>name = ''X'', parent = Some 0, children = None\<rparr>,
             \<lparr>name = ''Y'', parent = Some 0, children = None\<rparr>,
             \<lparr>name = ''A'', parent = Some 0, children = None\<rparr>,
             \<lparr>name = ''C'', parent = Some 0, children = None\<rparr>,
             \<lparr>name = ''B'', parent = Some 0, children = None\<rparr>]"

text \<open>The heap of the test of \<^verbatim>\<open>Find\<close>.\<close>

definition heap_F :: heap where
  "heap_F = [\<lparr>name = [], parent = None, children = Some [(''A'', 1), (''B'', 2)]\<rparr>,
             \<lparr>name = ''A'', parent = Some 0,
                children = Some [(''Ax'', 3), (''Ay'', 4), (''Az'', 5)]\<rparr>,
             \<lparr>name = ''B'', parent = Some 0, children = Some [(''Bx'', 6), (''By'', 7)]\<rparr>,
             \<lparr>name = ''Ax'', parent = Some 1, children = Some [(''Ax-1'', 8)]\<rparr>,
             \<lparr>name = ''Ay'', parent = Some 1, children = None\<rparr>,
             \<lparr>name = ''Az'', parent = Some 1, children = None\<rparr>,
             \<lparr>name = ''Bx'', parent = Some 2, children = None\<rparr>,
             \<lparr>name = ''By'', parent = Some 2, children = None\<rparr>,
             \<lparr>name = ''Ax-1'', parent = Some 3, children = None\<rparr>]"

text \<open>A root named \<open>/\<close>, the same root with a child \<open>a\<close>, and an unnamed root.\<close>

definition heap_P0 :: heap where
  "heap_P0 = [\<lparr>name = ''/'', parent = None, children = None\<rparr>]"

definition heap_P1 :: heap where
  "heap_P1 = [\<lparr>name = ''/'', parent = None, children = Some [(''a'', 1)]\<rparr>,
              \<lparr>name = ''a'', parent = Some 0, children = None\<rparr>]"

definition heap_E :: heap where
  "heap_E = [\<lparr>name = [], parent = None, children = None\<rparr>]"

section \<open>The example heaps are built by the operations\<close>

lemmas eval_defs = New_def Add_def Make_def Unlink_def Move_def Rename_def Child_def
  entries_def Let_def

lemma heap_A_built:
  "New [] [] = (0, [\<lparr>name = [], parent = None, children = None\<rparr>]) \<and>
   Add [\<lparr>name = [], parent = None, children = None\<rparr>] 0 ''A'' = Return (Inr 1) heap_A"
  by (simp add: eval_defs heap_A_def)

lemma heap_M_built:
  "(case New ''.'' [] of (r, h0) \<Rightarrow>
     (case Add h0 r ''A'' of Return (Inr a) h1 \<Rightarrow>
       (case Add h1 a ''Ax'' of Return (Inr ax) h2 \<Rightarrow>
         (case Add h2 ax ''Ax1'' of Return (Inr ax1) h3 \<Rightarrow>
            (r, a, ax, ax1, h3))))) = (0, 1, 2, 3, heap_M)"
  by (simp add: eval_defs heap_M_def)

lemma heap_T_built:
  "(case New ''.'' [] of (dt, h0) \<Rightarrow>
     (case Add h0 dt ''A'' of Return (Inr s1) h1 \<Rightarrow>
     (case Add h1 dt ''B'' of Return (Inr s2) h2 \<Rightarrow>
     (case Add h2 s1 ''Ax'' of Return _ h3 \<Rightarrow>
     (case Add h3 s1 ''Ay'' of Return (Inr s3) h4 \<Rightarrow>
     (case Add h4 s2 ''Bx'' of Return _ h5 \<Rightarrow>
     (case Add h5 s2 ''By'' of Return _ h6 \<Rightarrow>
     (case Add h6 s3 ''Ay-1'' of Return _ h7 \<Rightarrow>
     (case Add h7 s3 ''Ay-2'' of Return _ h8 \<Rightarrow> (dt, h8)))))))))) = (0, heap_T)"
  by (simp add: eval_defs heap_T_def)

lemma heap_T3_built:
  "(case New ''.'' [] of (dt, h0) \<Rightarrow>
     (case Make h0 dt [''A'', ''B'', ''C''] of Return None h1 \<Rightarrow>
     (case Add h1 1 ''Ax'' of Return _ h2 \<Rightarrow> (dt, h2)))) = (0, heap_T3)"
  by (simp add: eval_defs heap_T3_def)

lemma heap_B_built: "Rename heap_A 1 ''B'' = Return None heap_B"
  by (simp add: eval_defs heap_A_def heap_B_def)

lemma heap_WX_built: "New ''X'' heap_W = (3, heap_WX)"
  by (simp add: eval_defs heap_W_def heap_WX_def)

lemma heap_W_built: "Add heap_B 0 ''B'' = Return (Inr 2) heap_W"
  by (simp add: eval_defs heap_B_def heap_W_def)

lemma heap_N_built: "New ''X'' heap_A = (2, heap_N)"
  by (simp add: eval_defs heap_A_def heap_N_def)

lemma heap_S_built:
  "(case New [] [] of (a, h0) \<Rightarrow> (case New ''/'' h0 of (b, h1) \<Rightarrow> (a, b, h1))) = (0, 1, heap_S)"
  by (simp add: eval_defs heap_S_def)

lemma heap_C_built:
  "(case New [] [] of (dt, h0) \<Rightarrow>
     (case Add h0 dt ''Z'' of Return _ h1 \<Rightarrow>
     (case Add h1 dt ''X'' of Return _ h2 \<Rightarrow>
     (case Add h2 dt ''Y'' of Return _ h3 \<Rightarrow>
     (case Add h3 dt ''A'' of Return _ h4 \<Rightarrow>
     (case Add h4 dt ''C'' of Return _ h5 \<Rightarrow>
     (case Add h5 dt ''B'' of Return _ h6 \<Rightarrow> (dt, h6, Children h6 dt)))))))) =
   (0, heap_C, [1, 2, 3, 4, 5, 6])"
  by (simp add: eval_defs heap_C_def Children_def Size_def)

lemma heap_F_built:
  "(case New [] [] of (dt, h0) \<Rightarrow>
     (case Add h0 dt ''A'' of Return (Inr s1) h1 \<Rightarrow>
     (case Add h1 dt ''B'' of Return (Inr s2) h2 \<Rightarrow>
     (case Add h2 s1 ''Ax'' of Return (Inr s11) h3 \<Rightarrow>
     (case Make h3 s1 [''Ay'', ''Az''] of Return None h4 \<Rightarrow>
     (case Add h4 s2 ''Bx'' of Return _ h5 \<Rightarrow>
     (case Add h5 s2 ''By'' of Return _ h6 \<Rightarrow>
     (case Add h6 s11 ''Ax-1'' of Return (Inr s111) h7 \<Rightarrow> (dt, s111, h7))))))))) =
   (0, 8, heap_F)"
  by (simp add: eval_defs heap_F_def)

lemma heap_P0_built: "New ''/'' [] = (0, heap_P0) \<and> New [] [] = (0, heap_E)"
  by (simp add: New_def heap_P0_def heap_E_def)

section \<open>General facts about the heap\<close>

lemma nth_upd: "(h[d := x]) ! a = (if a = d \<and> d < length h then x else h ! a)"
  by (cases "d < length h") (auto simp: list_update_beyond)

lemma Child_upd_parent: "Child (h[d := (h ! d)\<lparr>parent := x\<rparr>]) p nm = Child h p nm"
  by (simp add: Child_def entries_def nth_upd)

section \<open>Invariants across calls\<close>

text \<open>
  C1. The worked failing input: on the heap built by \<open>New ""\<close> and \<open>Add "A"\<close> all four
  invariants hold; \<open>Rename\<close> of the child to \<open>B\<close> succeeds and changes only the child's
  name, so that the parent's mapping still holds the child under \<open>A\<close> and I1 fails
  afterwards. On the chain \<open>.\<close>/\<open>A\<close>/\<open>Ax\<close>/\<open>Ax1\<close>, moving \<open>A\<close> below \<open>Ax\<close> succeeds and
  leaves \<open>A\<close> and \<open>Ax\<close> as each other's parent, so that I4 fails afterwards.
\<close>

theorem Rename_breaks_I1:
  "I1 heap_A \<and> I2 heap_A \<and> I3 heap_A \<and> I4 heap_A \<and>
   Rename heap_A 1 ''B'' = Return None heap_B \<and> \<not> I1 heap_B \<and>
   I1 heap_M \<and> I2 heap_M \<and> I3 heap_M \<and> I4 heap_M \<and>
   Move heap_M 1 2 = Return None heap_M' \<and> \<not> I4 heap_M'"
  by (simp add: eval_defs I1_def I2_def I3_def I4_def heap_A_def heap_B_def heap_M_def
      heap_M'_def upt_rec [of _ "numeral _"] upt_rec [of _ "Suc _"])

section \<open>Rename\<close>

text \<open>
  C4 (as amended). \<open>Rename\<close> first turns the requested name \<open>/\<close> into the empty name. It
  fails with the error for a non-root exactly when the receiver has a parent and the
  name is then empty, and it fails with the error for an existing entry exactly when the
  receiver has a parent, the name is not empty and the parent's mapping has any entry
  under that name, the receiver's own entry included; a failing call leaves the heap
  unchanged. In particular renaming a non-root node that is registered under its own
  name to that name fails with the error for an existing entry.
\<close>

theorem Rename_errors:
  "(let nm = (if nm0 = ''/'' then [] else nm0) in
     ((\<exists>h'. Rename h d nm0 = Return (Some ''non-root directory must have name'') h')
        \<longleftrightarrow> parent (h ! d) \<noteq> None \<and> nm = []) \<and>
     ((\<exists>h'. Rename h d nm0 = Return (Some ''another entry with requested name exists in parent'') h')
        \<longleftrightarrow> (\<exists>p. parent (h ! d) = Some p \<and> nm \<noteq> [] \<and> Child h p nm \<noteq> None)) \<and>
     (\<forall>e h'. Rename h d nm0 = Return (Some e) h' \<longrightarrow> h' = h) \<and>
     (\<forall>p. parent (h ! d) = Some p \<and> Child h p (name (h ! d)) = Some d \<and> nm0 = name (h ! d) \<and> nm \<noteq> [] \<longrightarrow>
        Rename h d nm0 = Return (Some ''another entry with requested name exists in parent'') h))"
  by (auto simp: Rename_def Let_def split: option.splits)

theorem Rename_errors_witness:
  "parent (heap_A ! 1) = Some 0 \<and> Child heap_A 0 ''B'' = None \<and>
   \<not> (\<exists>h'. Rename heap_A 1 ''B'' =
          Return (Some ''another entry with requested name exists in parent'') h') \<and>
   \<not> (\<exists>h'. Rename heap_A 1 ''B'' = Return (Some ''non-root directory must have name'') h') \<and>
   Child heap_A 0 (name (heap_A ! 1)) = Some 1 \<and>
   Rename heap_A 1 (name (heap_A ! 1)) =
     Return (Some ''another entry with requested name exists in parent'') heap_A \<and>
   Rename heap_A 1 ''/'' = Return (Some ''non-root directory must have name'') heap_A"
proof -
  have a: "parent (heap_A ! 1) = Some 0" "Child heap_A 0 ''B'' = None"
    "Child heap_A 0 (name (heap_A ! 1)) = Some 1" "name (heap_A ! 1) = ''A''"
    by (simp_all add: heap_A_def Child_def entries_def)
  from Rename_errors [where h = heap_A and d = 1 and ?nm0.0 = "''B''"] a
  have 1: "\<not> (\<exists>h'. Rename heap_A 1 ''B'' =
          Return (Some ''another entry with requested name exists in parent'') h')"
    "\<not> (\<exists>h'. Rename heap_A 1 ''B'' = Return (Some ''non-root directory must have name'') h')"
    by (simp_all add: Let_def)
  from Rename_errors [where h = heap_A and d = 1 and ?nm0.0 = "''A''"] a
  have 2: "Rename heap_A 1 ''A'' = Return (Some ''another entry with requested name exists in parent'') heap_A"
    by (simp add: Let_def)
  from Rename_errors [where h = heap_A and d = 1 and ?nm0.0 = "''/''"] a
  have "\<exists>h'. Rename heap_A 1 ''/'' = Return (Some ''non-root directory must have name'') h'"
    by (simp add: Let_def)
  then obtain h' where 3: "Rename heap_A 1 ''/'' = Return (Some ''non-root directory must have name'') h'"
    by blast
  from Rename_errors [where h = heap_A and d = 1 and ?nm0.0 = "''/''"] 3
  have "h' = heap_A" by (simp add: Let_def)
  with 3 have 4: "Rename heap_A 1 ''/'' = Return (Some ''non-root directory must have name'') heap_A"
    by simp
  from a 1 2 4 show ?thesis by simp
qed

text \<open>Counterexample to C4 as stated: the child \<open>A\<close> of the root, renamed to \<open>A\<close>.\<close>

theorem Rename_own_name_counterexample:
  "parent (heap_A ! 1) = Some 0 \<and> name (heap_A ! 1) = ''A'' \<and> Child heap_A 0 ''A'' = Some 1 \<and>
   Rename heap_A 1 ''A'' = Return (Some ''another entry with requested name exists in parent'') heap_A"
  by (simp add: eval_defs heap_A_def)

section \<open>Unlink\<close>

text \<open>
  C3 (as amended). \<open>Unlink\<close> on a node with no parent returns false and changes nothing.
  On a node whose parent's mapping has no entry under the receiver's name it clears the
  receiver's parent reference and returns false. When the parent's mapping holds another
  node under the receiver's name it panics, the parent reference already cleared. On a
  node that its parent's mapping holds under the receiver's name it removes that entry,
  clears the parent reference, changes nothing else and returns true.
\<close>

theorem Unlink_cases:
  "(parent (h ! d) = None \<longrightarrow> Unlink h d = Return False h) \<and>
   (\<forall>p. parent (h ! d) = Some p \<and> Child h p (name (h ! d)) = None \<longrightarrow>
      Unlink h d = Return False (h[d := (h ! d)\<lparr>parent := None\<rparr>])) \<and>
   (\<forall>p c. parent (h ! d) = Some p \<and> Child h p (name (h ! d)) = Some c \<and> c \<noteq> d \<longrightarrow>
      Unlink h d = Panic WrongNameForChild (h[d := (h ! d)\<lparr>parent := None\<rparr>])) \<and>
   (\<forall>p. parent (h ! d) = Some p \<and> Child h p (name (h ! d)) = Some d \<and>
        d < length h \<and> p < length h \<and> p \<noteq> d \<longrightarrow>
      (\<exists>h'. Unlink h d = Return True h' \<and> length h' = length h \<and>
         h' ! d = (h ! d)\<lparr>parent := None\<rparr> \<and>
         name (h' ! p) = name (h ! p) \<and> parent (h' ! p) = parent (h ! p) \<and>
         map_of (entries (h' ! p)) = (map_of (entries (h ! p)))(name (h ! d) := None) \<and>
         (\<forall>a. a \<noteq> d \<and> a \<noteq> p \<longrightarrow> h' ! a = h ! a)))"
  by (auto simp: Unlink_def Let_def Child_upd_parent nth_upd entries_def Child_def
      AList.delete_conv' split: option.splits)

theorem Unlink_cases_witness:
  "Unlink heap_A 0 = Return False heap_A \<and>
   Unlink heap_B 1 = Return False (heap_B[1 := (heap_B ! 1)\<lparr>parent := None\<rparr>]) \<and>
   Unlink heap_W 1 = Panic WrongNameForChild (heap_W[1 := (heap_W ! 1)\<lparr>parent := None\<rparr>]) \<and>
   (\<exists>h'. Unlink heap_A 1 = Return True h' \<and> parent (h' ! 1) = None \<and>
      map_of (entries (h' ! 0)) = (map_of (entries (heap_A ! 0)))(''A'' := None))"
proof -
  have 1: "Unlink heap_A 0 = Return False heap_A"
    using Unlink_cases [where h = heap_A and d = 0] by (simp add: heap_A_def)
  have 2: "Unlink heap_B 1 = Return False (heap_B[1 := (heap_B ! 1)\<lparr>parent := None\<rparr>])"
    using Unlink_cases [where h = heap_B and d = 1]
    by (simp add: heap_B_def Child_def entries_def)
  have 3: "Unlink heap_W 1 = Panic WrongNameForChild (heap_W[1 := (heap_W ! 1)\<lparr>parent := None\<rparr>])"
    using Unlink_cases [where h = heap_W and d = 1]
    by (simp add: heap_W_def Child_def entries_def)
  have a: "parent (heap_A ! 1) = Some 0 \<and> Child heap_A 0 (name (heap_A ! 1)) = Some 1 \<and>
      1 < length heap_A \<and> 0 < length heap_A \<and> name (heap_A ! 1) = ''A''"
    by (simp add: heap_A_def Child_def entries_def)
  have 4: "\<exists>h'. Unlink heap_A 1 = Return True h' \<and> parent (h' ! 1) = None \<and>
      map_of (entries (h' ! 0)) = (map_of (entries (heap_A ! 0)))(''A'' := None)"
    using Unlink_cases [where h = heap_A and d = 1] a by auto
  from 1 2 3 4 show ?thesis by simp
qed

text \<open>Counterexample to C3 as stated: after \<open>A\<close> was renamed to \<open>B\<close> the root's mapping has
  no entry \<open>B\<close>, and \<open>Unlink\<close> returns the ordinary value false.\<close>

theorem Unlink_absent_counterexample:
  "parent (heap_B ! 1) = Some 0 \<and> Child heap_B 0 (name (heap_B ! 1)) = None \<and>
   Unlink heap_B 1 = Return False
     [\<lparr>name = [], parent = None, children = Some [(''A'', 1)]\<rparr>,
      \<lparr>name = ''B'', parent = None, children = None\<rparr>]"
  by (simp add: eval_defs heap_B_def)

section \<open>Move to a destination without a mapping\<close>

text \<open>What \<open>Move\<close> does on a named receiver and a destination whose children mapping is
  nil, by the state of the receiver's old parent.\<close>

lemma Move_nil_destination_cases:
  assumes "d < length h" "name (h ! d) \<noteq> []" "children (h ! dst) = None"
  shows "(\<exists>f h'. Move h d dst = Panic f h' \<and> parent (h' ! d) = None) \<and>
     (parent (h ! d) = None \<longrightarrow> Move h d dst = Panic NilMapAssign h) \<and>
     (\<forall>p. parent (h ! d) = Some p \<and> Child h p (name (h ! d)) = Some d \<longrightarrow>
        Move h d dst = Panic NilMapAssign
          (h[d := (h ! d)\<lparr>parent := None\<rparr>,
             p := (h[d := (h ! d)\<lparr>parent := None\<rparr>] ! p)\<lparr>children :=
                    Some (AList.delete (name (h ! d)) (entries (h ! p)))\<rparr>])) \<and>
     (\<forall>p. parent (h ! d) = Some p \<and> Child h p (name (h ! d)) = None \<longrightarrow>
        Move h d dst = Panic NilMapAssign (h[d := (h ! d)\<lparr>parent := None\<rparr>])) \<and>
     (\<forall>p c. parent (h ! d) = Some p \<and> Child h p (name (h ! d)) = Some c \<and> c \<noteq> d \<longrightarrow>
        Move h d dst = Panic WrongNameForChild (h[d := (h ! d)\<lparr>parent := None\<rparr>]))"
proof -
  have nf: "Child h dst (name (h ! d)) = None"
    using assms(3) by (simp add: Child_def entries_def)
  have nm: "name (h[d := (h ! d)\<lparr>parent := None\<rparr>] ! d) = name (h ! d)"
    by (simp add: nth_upd)
  have en: "entries (h[d := (h ! d)\<lparr>parent := None\<rparr>] ! p) = entries (h ! p)" for p
    by (simp add: nth_upd entries_def)
  have ch: "children (h[d := (h ! d)\<lparr>parent := None\<rparr>] ! dst) = None"
    using assms(3) by (auto simp add: nth_upd)
  have pn: "parent (h[d := (h ! d)\<lparr>parent := None\<rparr>] ! d) = None"
    using assms(1) by simp
  show ?thesis
  proof (cases "parent (h ! d)")
    case None
    then show ?thesis
      using assms nf by (simp add: Move_def Unlink_def)
  next
    case (Some p)
    show ?thesis
    proof (cases "Child h p (name (h ! d))")
      case None
      then show ?thesis
        using Some assms nf ch pn
        by (simp add: Move_def Unlink_def Let_def Child_upd_parent nm)
    next
      case (Some c)
      have pd: "p \<noteq> dst"
        using Some assms(3) by (auto simp: Child_def entries_def)
      show ?thesis
      proof (cases "c = d")
        case True
        have "children (h[d := (h ! d)\<lparr>parent := None\<rparr>,
             p := (h[d := (h ! d)\<lparr>parent := None\<rparr>] ! p)\<lparr>children :=
                    Some (AList.delete (name (h ! d)) (entries (h ! p)))\<rparr>] ! dst) = None"
          using pd ch by (simp add: nth_upd)
        moreover have "parent (h[d := (h ! d)\<lparr>parent := None\<rparr>,
             p := (h[d := (h ! d)\<lparr>parent := None\<rparr>] ! p)\<lparr>children :=
                    Some (AList.delete (name (h ! d)) (entries (h ! p)))\<rparr>] ! d) = None"
          using pn by (simp add: nth_upd)
        ultimately show ?thesis
          using True Some \<open>parent (h ! d) = Some p\<close> assms nf
          by (simp add: Move_def Unlink_def Let_def Child_upd_parent nm en)
      next
        case False
        then show ?thesis
          using Some \<open>parent (h ! d) = Some p\<close> assms nf pn
          by (auto simp add: Move_def Unlink_def Let_def Child_upd_parent nm)
      qed
    qed
  qed
qed


text \<open>
  C10 (as amended). For a named receiver and a destination whose children mapping is
  nil, \<open>Move\<close> never returns: it panics, the receiver's parent reference cleared by then.
  When the receiver is a root, or is registered in its parent's mapping under its own
  name, the panic is the assignment to the nil mapping, raised after \<open>Unlink\<close> has taken
  the receiver out of its old parent's mapping.
\<close>

theorem Move_nil_destination:
  assumes "d < length h" "name (h ! d) \<noteq> []" "children (h ! dst) = None"
  shows "(\<exists>f h'. Move h d dst = Panic f h' \<and> parent (h' ! d) = None) \<and>
     (parent (h ! d) = None \<longrightarrow> Move h d dst = Panic NilMapAssign h) \<and>
     (\<forall>p. parent (h ! d) = Some p \<and> Child h p (name (h ! d)) = Some d \<longrightarrow>
        Move h d dst = Panic NilMapAssign
          (h[d := (h ! d)\<lparr>parent := None\<rparr>,
             p := (h[d := (h ! d)\<lparr>parent := None\<rparr>] ! p)\<lparr>children :=
                    Some (AList.delete (name (h ! d)) (entries (h ! p)))\<rparr>]))"
  using Move_nil_destination_cases [OF assms] by blast

theorem Move_nil_destination_witness:
  "1 < length heap_N \<and> name (heap_N ! 1) \<noteq> [] \<and> children (heap_N ! 2) = None \<and>
   parent (heap_N ! 1) = Some 0 \<and> Child heap_N 0 (name (heap_N ! 1)) = Some 1 \<and>
   Move heap_N 1 2 = Panic NilMapAssign
     [\<lparr>name = [], parent = None, children = Some []\<rparr>,
      \<lparr>name = ''A'', parent = None, children = None\<rparr>,
      \<lparr>name = ''X'', parent = None, children = None\<rparr>]"
proof -
  have a: "1 < length heap_N" "name (heap_N ! 1) \<noteq> []" "children (heap_N ! 2) = None"
    by (simp_all add: heap_N_def)
  have b: "parent (heap_N ! 1) = Some 0 \<and> Child heap_N 0 (name (heap_N ! 1)) = Some 1"
    by (simp add: heap_N_def Child_def entries_def)
  from Move_nil_destination [OF a] b
  have "Move heap_N 1 2 = Panic NilMapAssign
          (heap_N[1 := (heap_N ! 1)\<lparr>parent := None\<rparr>,
             0 := (heap_N[1 := (heap_N ! 1)\<lparr>parent := None\<rparr>] ! 0)\<lparr>children :=
                    Some (AList.delete (name (heap_N ! 1)) (entries (heap_N ! 0)))\<rparr>])"
    by blast
  then show ?thesis
    using a b by (simp add: heap_N_def entries_def)
qed

text \<open>Counterexample to C10 as stated: after \<open>A\<close> was renamed to \<open>B\<close> and a child \<open>B\<close> was
  added, the root's mapping holds another node under the receiver's name; moving the
  receiver to the fresh root \<open>X\<close> panics in \<open>Unlink\<close>, before any insertion, and the
  receiver's entry stays in the root's mapping.\<close>

theorem Move_nil_destination_counterexample:
  "name (heap_WX ! 1) \<noteq> [] \<and> children (heap_WX ! 3) = None \<and>
   Move heap_WX 1 3 = Panic WrongNameForChild
     [\<lparr>name = [], parent = None, children = Some [(''A'', 1), (''B'', 2)]\<rparr>,
      \<lparr>name = ''B'', parent = None, children = None\<rparr>,
      \<lparr>name = ''B'', parent = Some 0, children = None\<rparr>,
      \<lparr>name = ''X'', parent = None, children = None\<rparr>]"
  by (simp add: eval_defs heap_WX_def)

section \<open>The frame of Move\<close>

lemma Unlink_frame:
  assumes "Unlink h d = Return b h1"
  shows "length h1 = length h \<and> (\<forall>a. name (h1 ! a) = name (h ! a)) \<and>
         (\<forall>a. a \<noteq> d \<longrightarrow> parent (h1 ! a) = parent (h ! a)) \<and>
         (\<forall>a. parent (h ! d) \<noteq> Some a \<longrightarrow> children (h1 ! a) = children (h ! a))"
  using assms
  by (auto simp: Unlink_def Let_def nth_upd split: option.splits if_splits)

text \<open>
  The frame of \<open>Move\<close> on every heap. When \<open>Move\<close> fails (the receiver is unnamed, or the
  destination has an entry under the receiver's name) the heap is unchanged, and it
  fails in no other case. When it succeeds no name changes, no parent reference but the
  receiver's changes, and no children mapping but those of the destination and of the
  receiver's old parent changes. So when neither of the two lies in the receiver's
  subtree, the receiver keeps its children and every descendant is untouched.
\<close>

theorem Move_frame:
  "((name (h ! d) = [] \<or> Child h dst (name (h ! d)) \<noteq> None) \<longrightarrow>
      (\<exists>e. Move h d dst = Return (Some e) h)) \<and>
   (\<forall>e h'. Move h d dst = Return (Some e) h' \<longrightarrow>
      h' = h \<and> (name (h ! d) = [] \<or> Child h dst (name (h ! d)) \<noteq> None)) \<and>
   (\<forall>h'. Move h d dst = Return None h' \<longrightarrow>
      length h' = length h \<and>
      (\<forall>a. name (h' ! a) = name (h ! a)) \<and>
      (\<forall>a. a \<noteq> d \<longrightarrow> parent (h' ! a) = parent (h ! a)) \<and>
      (\<forall>a. a \<noteq> dst \<and> parent (h ! d) \<noteq> Some a \<longrightarrow> children (h' ! a) = children (h ! a)) \<and>
      (d < length h \<longrightarrow> parent (h' ! d) = Some dst) \<and>
      (dst < length h \<longrightarrow> Child h' dst (name (h ! d)) = Some d) \<and>
      ((\<forall>n. dst \<notin> set (level h d n)) \<and> (\<forall>n p. parent (h ! d) = Some p \<longrightarrow> p \<notin> set (level h d n)) \<longrightarrow>
         children (h' ! d) = children (h ! d) \<and>
         (\<forall>n a. a \<in> set (level h d (Suc n)) \<and> a \<noteq> d \<longrightarrow> h' ! a = h ! a)))"
proof (intro conjI allI impI)
  assume "name (h ! d) = [] \<or> Child h dst (name (h ! d)) \<noteq> None"
  then show "\<exists>e. Move h d dst = Return (Some e) h"
    by (auto simp: Move_def)
next
  fix e h' assume "Move h d dst = Return (Some e) h'"
  then show "h' = h" "name (h ! d) = [] \<or> Child h dst (name (h ! d)) \<noteq> None"
    by (auto simp: Move_def Let_def split: if_splits outcome.splits option.splits)
next
  fix h' assume m: "Move h d dst = Return None h'"
  then obtain b h1 al where u: "Unlink h d = Return b h1" and c: "children (h1 ! dst) = Some al"
    and h': "h' = h1[dst := (h1 ! dst)\<lparr>children := Some (AList.update (name (h1 ! d)) d al)\<rparr>,
                   d := (h1[dst := (h1 ! dst)\<lparr>children := Some (AList.update (name (h1 ! d)) d al)\<rparr>] ! d)\<lparr>parent := Some dst\<rparr>]"
    by (auto simp: Move_def Let_def split: if_splits outcome.splits option.splits)
  note f = Unlink_frame [OF u]
  show "length h' = length h" using f h' by simp
  show nm: "name (h' ! a) = name (h ! a)" for a using f h' by (simp add: nth_upd)
  show pa: "a \<noteq> d \<Longrightarrow> parent (h' ! a) = parent (h ! a)" for a using f h' by (simp add: nth_upd)
  show ch: "a \<noteq> dst \<and> parent (h ! d) \<noteq> Some a \<Longrightarrow> children (h' ! a) = children (h ! a)" for a
    using f h' by (auto simp add: nth_upd)
  show "d < length h \<Longrightarrow> parent (h' ! d) = Some dst" using f h' by (simp add: nth_upd)
  show "dst < length h \<Longrightarrow> Child h' dst (name (h ! d)) = Some d"
    using f h' by (simp add: nth_upd Child_def entries_def AList.update_conv')
  assume out: "(\<forall>n. dst \<notin> set (level h d n)) \<and> (\<forall>n p. parent (h ! d) = Some p \<longrightarrow> p \<notin> set (level h d n))"
  from out have "dst \<notin> set (level h d 0)" by blast
  then have dd: "dst \<noteq> d" by simp
  from out have "parent (h ! d) = Some p \<Longrightarrow> p \<notin> set (level h d 0)" for p by blast
  then have pd: "parent (h ! d) \<noteq> Some d" by auto
  show "children (h' ! d) = children (h ! d)" using ch dd pd by simp
  fix n a assume a: "a \<in> set (level h d (Suc n)) \<and> a \<noteq> d"
  with out have "a \<noteq> dst" "parent (h ! d) \<noteq> Some a" by blast+
  with a have "name (h' ! a) = name (h ! a)" "parent (h' ! a) = parent (h ! a)" "children (h' ! a) = children (h ! a)"
    using nm pa ch by auto
  then show "h' ! a = h ! a" by simp
qed


lemma level_heap_T_4:
  "level heap_T 4 0 = [4]" "level heap_T 4 (Suc 0) = [7, 8]" "level heap_T 4 (Suc (Suc n)) = []"
proof -
  show "level heap_T 4 0 = [4]" by simp
  show 1: "level heap_T 4 (Suc 0) = [7, 8]" by (simp add: heap_T_def entries_def)
  show "level heap_T 4 (Suc (Suc n)) = []"
  proof (induction n)
    case 0
    show ?case unfolding level.simps(2) [of _ _ "Suc 0"] 1 by (simp add: heap_T_def entries_def)
  next
    case (Suc n)
    show ?case unfolding level.simps(2) [of _ _ "Suc (Suc n)"] Suc by simp
  qed
qed

lemma level_heap_T_4_cases: "set (level heap_T 4 n) \<subseteq> {4, 7, 8}"
proof (cases n)
  case 0
  then show ?thesis by (simp only: level_heap_T_4) simp
next
  case (Suc m)
  then show ?thesis
    by (cases m) (simp_all only: level_heap_T_4, simp_all)
qed

theorem Move_frame_witness:
  "name (heap_A ! 0) = [] \<and> (\<exists>e. Move heap_A 0 1 = Return (Some e) heap_A) \<and>
   (\<forall>n. 2 \<notin> set (level heap_T 4 n)) \<and> (\<forall>n. 1 \<notin> set (level heap_T 4 n)) \<and>
   7 \<in> set (level heap_T 4 (Suc 0)) \<and>
   (\<exists>h'. Move heap_T 4 2 = Return None h' \<and> parent (h' ! 4) = Some 2 \<and>
      Child h' 2 ''Ay'' = Some 4 \<and> children (h' ! 4) = children (heap_T ! 4) \<and>
      h' ! 7 = heap_T ! 7)"
proof -
  have a: "name (heap_A ! 0) = []" by (simp add: heap_A_def)
  have 1: "\<exists>e. Move heap_A 0 1 = Return (Some e) heap_A"
    using Move_frame [where h = heap_A and d = 0 and dst = 1] a by blast
  have l2: "2 \<notin> set (level heap_T 4 n)" for n using level_heap_T_4_cases [of n] by auto
  have l1: "1 \<notin> set (level heap_T 4 n)" for n using level_heap_T_4_cases [of n] by auto
  have p: "parent (heap_T ! 4) = Some 1" "4 < length heap_T" "2 < length heap_T"
    "name (heap_T ! 4) = ''Ay''"
    by (simp_all add: heap_T_def)
  have 7: "7 \<in> set (level heap_T 4 (Suc 0)) \<and> (7::nat) \<noteq> 4"
    by (simp only: level_heap_T_4) simp
  obtain h' where m: "Move heap_T 4 2 = Return None h'"
    by (simp add: eval_defs heap_T_def)
  have out: "(\<forall>n. 2 \<notin> set (level heap_T 4 n)) \<and>
             (\<forall>n p. parent (heap_T ! 4) = Some p \<longrightarrow> p \<notin> set (level heap_T 4 n))"
    using l1 l2 p(1) by (simp only: option.inject) blast
  from Move_frame [where h = heap_T and d = 4 and dst = 2] m
  have f: "(4 < length heap_T \<longrightarrow> parent (h' ! 4) = Some 2) \<and>
      (2 < length heap_T \<longrightarrow> Child h' 2 (name (heap_T ! 4)) = Some 4) \<and>
      ((\<forall>n. 2 \<notin> set (level heap_T 4 n)) \<and>
       (\<forall>n p. parent (heap_T ! 4) = Some p \<longrightarrow> p \<notin> set (level heap_T 4 n)) \<longrightarrow>
         children (h' ! 4) = children (heap_T ! 4) \<and>
         (\<forall>n a. a \<in> set (level heap_T 4 (Suc n)) \<and> a \<noteq> 4 \<longrightarrow> h' ! a = heap_T ! a))"
    by blast
  from f p(2) have g1: "parent (h' ! 4) = Some 2" by blast
  from f p(3) have "Child h' 2 (name (heap_T ! 4)) = Some 4" by blast
  then have g2: "Child h' 2 ''Ay'' = Some 4" by (simp only: p(4))
  from f out have g3: "children (h' ! 4) = children (heap_T ! 4)"
    and g4: "\<forall>n a. a \<in> set (level heap_T 4 (Suc n)) \<and> a \<noteq> 4 \<longrightarrow> h' ! a = heap_T ! a"
    by blast+
  from g4 7 have g5: "h' ! 7 = heap_T ! 7" by blast
  from 7 have s7: "7 \<in> set (level heap_T 4 (Suc 0))" by blast
  from m g1 g2 g3 g5 have "\<exists>h'. Move heap_T 4 2 = Return None h' \<and> parent (h' ! 4) = Some 2 \<and>
      Child h' 2 ''Ay'' = Some 4 \<and> children (h' ! 4) = children (heap_T ! 4) \<and>
      h' ! 7 = heap_T ! 7" by blast
  with a 1 l1 l2 s7 show ?thesis by blast
qed

text \<open>
  C9. The failing input: on the chain \<open>.\<close>/\<open>A\<close>/\<open>Ax\<close>/\<open>Ax1\<close>, moving \<open>A\<close> to its own child
  \<open>Ax\<close> is not refused; it succeeds and changes the children mapping of the descendant
  \<open>Ax\<close>, which now holds its own parent.
\<close>

theorem Move_into_subtree_touches_descendant:
  "Move heap_M 1 2 = Return None heap_M' \<and> 2 \<in> set (level heap_M 1 (Suc 0)) \<and>
   children (heap_M' ! 2) \<noteq> children (heap_M ! 2) \<and>
   parent (heap_M' ! 1) = Some 2 \<and> parent (heap_M' ! 2) = Some 1"
  by (simp add: eval_defs heap_M_def heap_M'_def)

section \<open>Make\<close>

lemma update_fresh: "k \<notin> fst ` set al \<Longrightarrow> AList.update k v al = al @ [(k, v)]"
  by (induction al) auto

lemma Make_check_None:
  "Make_check h d nms = None \<longleftrightarrow>
     (\<forall>nm\<in>set nms. nm \<noteq> [] \<and> nm \<noteq> ''/'' \<and> Child h d nm = None)"
  by (induction nms) auto

lemma Make_create_distinct:
  "d < length h \<Longrightarrow> distinct nms \<Longrightarrow> children (h ! d) = Some al \<Longrightarrow>
   set nms \<inter> fst ` set al = {} \<Longrightarrow>
   Make_create h d nms =
     (h @ map (\<lambda>nm. \<lparr>name = nm, parent = Some d, children = None\<rparr>) nms)
       [d := (h ! d)\<lparr>children := Some (al @ zip nms [length h..<length h + length nms])\<rparr>]"
proof (induction nms arbitrary: h al)
  case Nil
  have "(h ! d)\<lparr>children := Some al\<rparr> = h ! d"
    using Nil.prems(3) by (cases "h ! d") simp
  then show ?case by simp
next
  case (Cons nm nms)
  let ?h2 = "(h @ [\<lparr>name = nm, parent = Some d, children = None\<rparr>])[d := (h ! d)\<lparr>children := Some (al @ [(nm, length h)])\<rparr>]"
  have fr: "nm \<notin> fst ` set al" using Cons.prems by auto
  have step: "Make_create h d (nm # nms) = Make_create ?h2 d nms"
    using Cons.prems(1,3) fr
    by (simp add: Let_def nth_append entries_def update_fresh)
  have ih: "Make_create ?h2 d nms =
     (?h2 @ map (\<lambda>nm. \<lparr>name = nm, parent = Some d, children = None\<rparr>) nms)
       [d := (?h2 ! d)\<lparr>children := Some ((al @ [(nm, length h)]) @ zip nms [length ?h2..<length ?h2 + length nms])\<rparr>]"
    using Cons.prems by (intro Cons.IH) (auto simp: nth_append)
  have z: "zip (nm # nms) [length h..<length h + length (nm # nms)] =
           (nm, length h) # zip nms [Suc (length h)..<Suc (length h) + length nms]"
    by (simp add: upt_conv_Cons del: upt_Suc)
  show ?case
    unfolding step ih z using Cons.prems(1)
    by (simp add: list_update_append nth_append)
qed


text \<open>
  C2 (as amended). If any requested name is empty, is \<open>/\<close> or is a key of the receiver's
  mapping, \<open>Make\<close> returns an error and leaves the heap unchanged: no child is created.
  Otherwise it succeeds; and when the requested names are pairwise different it creates
  exactly one child per name: the heap grows by one fresh entry per name, in order, each
  with the receiver as parent and no mapping, and the receiver's mapping grows by one
  entry per name that points to it.
\<close>

theorem Make_all_or_nothing:
  assumes "d < length h"
  shows
  "((\<exists>nm\<in>set nms. nm = [] \<or> nm = ''/'' \<or> Child h d nm \<noteq> None) \<longrightarrow>
      (\<exists>e. Make h d nms = Return (Some e) h)) \<and>
   (\<not> (\<exists>nm\<in>set nms. nm = [] \<or> nm = ''/'' \<or> Child h d nm \<noteq> None) \<longrightarrow>
      (\<exists>h'. Make h d nms = Return None h') \<and>
      (distinct nms \<longrightarrow>
         Make h d nms = Return None
           ((h @ map (\<lambda>nm. \<lparr>name = nm, parent = Some d, children = None\<rparr>) nms)
              [d := (h ! d)\<lparr>children :=
                 Some (entries (h ! d) @ zip nms [length h..<length h + length nms])\<rparr>])))"
proof (intro conjI impI)
  assume "\<exists>nm\<in>set nms. nm = [] \<or> nm = ''/'' \<or> Child h d nm \<noteq> None"
  then have "Make_check h d nms \<noteq> None"
    by (auto simp: Make_check_None)
  then show "\<exists>e. Make h d nms = Return (Some e) h"
    by (auto simp: Make_def)
next
  assume ok: "\<not> (\<exists>nm\<in>set nms. nm = [] \<or> nm = ''/'' \<or> Child h d nm \<noteq> None)"
  then have chk: "Make_check h d nms = None"
    by (auto simp: Make_check_None)
  then show "\<exists>h'. Make h d nms = Return None h'"
    by (simp add: Make_def Let_def)
  assume dis: "distinct nms"
  let ?z = "zip nms [length h..<length h + length nms]"
  show "Make h d nms = Return None
           ((h @ map (\<lambda>nm. \<lparr>name = nm, parent = Some d, children = None\<rparr>) nms)
              [d := (h ! d)\<lparr>children := Some (entries (h ! d) @ ?z)\<rparr>])"
  proof (cases "children (h ! d)")
    case None
    let ?h1 = "h[d := (h ! d)\<lparr>children := Some []\<rparr>]"
    have "Make_create ?h1 d nms =
       (?h1 @ map (\<lambda>nm. \<lparr>name = nm, parent = Some d, children = None\<rparr>) nms)
         [d := (?h1 ! d)\<lparr>children := Some ([] @ zip nms [length ?h1..<length ?h1 + length nms])\<rparr>]"
      using assms dis by (intro Make_create_distinct) auto
    then show ?thesis
      using None chk assms
      by (simp add: Make_def Let_def entries_def list_update_append)
  next
    case (Some al)
    have "set nms \<inter> fst ` set al = {}"
      using ok Some by (auto simp: Child_def entries_def map_of_eq_None_iff)
    then have "Make_create h d nms =
       (h @ map (\<lambda>nm. \<lparr>name = nm, parent = Some d, children = None\<rparr>) nms)
         [d := (h ! d)\<lparr>children := Some (al @ zip nms [length h..<length h + length nms])\<rparr>]"
      using assms dis Some by (intro Make_create_distinct) auto
    then show ?thesis
      using Some chk by (simp add: Make_def Let_def entries_def)
  qed
qed

theorem Make_all_or_nothing_witness:
  "0 < length heap_A \<and>
   (\<exists>e. Make heap_A 0 [''B'', ''A''] = Return (Some e) heap_A) \<and>
   Make heap_A 0 [''B'', ''C''] = Return None
     [\<lparr>name = [], parent = None, children = Some [(''A'', 1), (''B'', 2), (''C'', 3)]\<rparr>,
      \<lparr>name = ''A'', parent = Some 0, children = None\<rparr>,
      \<lparr>name = ''B'', parent = Some 0, children = None\<rparr>,
      \<lparr>name = ''C'', parent = Some 0, children = None\<rparr>]"
proof -
  have l: "0 < length heap_A" by (simp add: heap_A_def)
  have c: "Child heap_A 0 ''A'' \<noteq> None" "Child heap_A 0 ''B'' = None" "Child heap_A 0 ''C'' = None"
    by (simp_all add: heap_A_def Child_def entries_def)
  have 1: "\<exists>e. Make heap_A 0 [''B'', ''A''] = Return (Some e) heap_A"
    using Make_all_or_nothing [OF l, of "[''B'', ''A'']"] c by simp
  have 2: "Make heap_A 0 [''B'', ''C''] = Return None
           ((heap_A @ map (\<lambda>nm. \<lparr>name = nm, parent = Some 0, children = None\<rparr>) [''B'', ''C''])
              [0 := (heap_A ! 0)\<lparr>children :=
                 Some (entries (heap_A ! 0) @ zip [''B'', ''C''] [length heap_A..<length heap_A + length [''B'', ''C'']])\<rparr>])"
    using Make_all_or_nothing [OF l, of "[''B'', ''C'']"] c by simp
  show ?thesis
    using l 1 unfolding 2 by (simp add: heap_A_def entries_def upt_rec [of _ "numeral _"] upt_rec [of _ "Suc _"])
qed

text \<open>Counterexample to C2 as stated: \<open>Make("X", "X")\<close> on a childless root succeeds and
  leaves a child \<open>X\<close>.\<close>

theorem Make_duplicate_counterexample:
  "Make [\<lparr>name = [], parent = None, children = None\<rparr>] 0 [''X'', ''X''] =
     Return None [\<lparr>name = [], parent = None, children = Some [(''X'', 2)]\<rparr>,
                  \<lparr>name = ''X'', parent = Some 0, children = None\<rparr>,
                  \<lparr>name = ''X'', parent = Some 0, children = None\<rparr>]"
  by (simp add: eval_defs)

section \<open>Find\<close>

lemma Find_loop_Nil: "Find_loop h nm [] = Some None"
  by (subst Find_loop.simps) simp

lemma Find_loop_hit: "Child h x nm = Some ch \<Longrightarrow> Find_loop h nm (x # xs) = Some (Some ch)"
  by (subst Find_loop.simps) simp

lemma Find_loop_miss:
  "Child h x nm = None \<Longrightarrow> Find_loop h nm (x # xs) = Find_loop h nm (xs @ kids h x)"
  by (subst Find_loop.simps) simp

lemma Find_loop_skip:
  "\<forall>a\<in>set xs. Child h a nm = None \<Longrightarrow>
   Find_loop h nm (xs @ ys) = Find_loop h nm (ys @ concat (map (kids h) xs))"
proof (induction xs arbitrary: ys)
  case Nil
  then show ?case by simp
next
  case (Cons x xs)
  have "Find_loop h nm ((x # xs) @ ys) = Find_loop h nm (xs @ (ys @ kids h x))"
    using Cons.prems by (simp add: Find_loop_miss)
  also have "\<dots> = Find_loop h nm ((ys @ kids h x) @ concat (map (kids h) xs))"
    using Cons.prems by (intro Cons.IH) simp
  finally show ?case by simp
qed

lemma Find_loop_level:
  "\<forall>m<n. \<forall>a\<in>set (level h d m). Child h a nm = None \<Longrightarrow>
   Find_loop h nm [d] = Find_loop h nm (level h d n)"
proof (induction n)
  case 0
  show ?case by simp
next
  case (Suc n)
  have "Find_loop h nm [d] = Find_loop h nm (level h d n)"
    using Suc.prems by (intro Suc.IH) (auto simp: less_Suc_eq)
  also have "\<dots> = Find_loop h nm (level h d n @ [])" by simp
  also have "\<dots> = Find_loop h nm ([] @ concat (map (kids h) (level h d n)))"
    using Suc.prems by (intro Find_loop_skip) blast
  finally show ?case by simp
qed

lemma concat_map_concat:
  "concat (map f (concat xss)) = concat (map (\<lambda>xs. concat (map f xs)) xss)"
  by (induction xss) simp_all

lemma level_shift: "level h d (Suc n) = concat (map (\<lambda>k. level h k n) (kids h d))"
proof (induction n)
  case 0
  show ?case by (simp add: comp_def)
next
  case (Suc n)
  have "level h d (Suc (Suc n)) = concat (map (kids h) (level h d (Suc n)))" by simp
  also have "\<dots> = concat (map (kids h) (concat (map (\<lambda>k. level h k n) (kids h d))))"
    by (simp only: Suc.IH)
  also have "\<dots> = concat (map (\<lambda>k. concat (map (kids h) (level h k n))) (kids h d))"
    by (simp only: concat_map_concat map_map comp_def)
  finally show ?case by simp
qed

lemma Find_loop_sound:
  assumes "Find_loop h nm q = Some r"
  shows "\<forall>c. r = Some c \<longrightarrow> (\<exists>x\<in>set q. \<exists>n. \<exists>a\<in>set (level h x n). Child h a nm = Some c)"
proof (rule Find_loop.raw_induct
    [where P = "\<lambda>h nm q r. \<forall>c. r = Some c \<longrightarrow>
                  (\<exists>x\<in>set q. \<exists>n. \<exists>a\<in>set (level h x n). Child h a nm = Some c)", OF _ assms])
  fix f :: "heap \<Rightarrow> string \<Rightarrow> addr list \<Rightarrow> addr option option"
    and h nm nodes r
  assume ih: "\<And>h nm nodes y. f h nm nodes = Some y \<Longrightarrow>
      \<forall>c. y = Some c \<longrightarrow> (\<exists>x\<in>set nodes. \<exists>n. \<exists>a\<in>set (level h x n). Child h a nm = Some c)"
    and step: "(case nodes of [] \<Rightarrow> Some None
      | node # rest \<Rightarrow>
          (case Child h node nm of
             None \<Rightarrow> f h nm (rest @ map snd (entries (h ! node)))
           | Some ch \<Rightarrow> Some (Some ch))) = Some r"
  show "\<forall>c. r = Some c \<longrightarrow> (\<exists>x\<in>set nodes. \<exists>n. \<exists>a\<in>set (level h x n). Child h a nm = Some c)"
  proof (cases nodes)
    case Nil
    with step show ?thesis by simp
  next
    case (Cons node rest)
    show ?thesis
    proof (cases "Child h node nm")
      case (Some ch)
      have "node \<in> set (level h node 0)" by simp
      then have "\<exists>n. \<exists>a\<in>set (level h node n). Child h a nm = Some ch"
        using Some by blast
      moreover from Some Cons step have "r = Some ch" by simp
      ultimately show ?thesis using Cons by simp
    next
      case None
      with Cons step have "f h nm (rest @ kids h node) = Some r" by simp
      from ih [OF this] have ih': "\<forall>c. r = Some c \<longrightarrow>
         (\<exists>x\<in>set (rest @ kids h node). \<exists>n. \<exists>a\<in>set (level h x n). Child h a nm = Some c)" .
      show ?thesis
      proof (intro allI impI)
        fix c assume "r = Some c"
        with ih' obtain x n a where x: "x \<in> set (rest @ kids h node)" and a: "a \<in> set (level h x n)"
          and c: "Child h a nm = Some c" by blast
        show "\<exists>x\<in>set nodes. \<exists>n. \<exists>a\<in>set (level h x n). Child h a nm = Some c"
        proof (cases "x \<in> set rest")
          case True
          with a c Cons show ?thesis by auto
        next
          case False
          with x have "x \<in> set (kids h node)" by simp
          with a have m: "a \<in> set (level h node (Suc n))"
            unfolding level_shift by auto
          have "node \<in> set nodes" using Cons by simp
          with m c show ?thesis by blast
        qed
      qed
    qed
  qed
qed


lemma Child_in_level:
  "a \<in> set (level h d n) \<Longrightarrow> Child h a nm = Some ch \<Longrightarrow> ch \<in> set (level h d (Suc n))"
proof -
  assume a: "a \<in> set (level h d n)" and c: "Child h a nm = Some ch"
  from c have "(nm, ch) \<in> set (entries (h ! a))"
    by (simp add: Child_def map_of_SomeD)
  then have "ch \<in> set (kids h a)" by force
  with a show ?thesis by auto
qed

lemma Find_first_level:
  assumes none: "\<forall>m<n. \<forall>a\<in>set (level h d m). Child h a nm = None"
    and some: "\<exists>a\<in>set (level h d n). Child h a nm \<noteq> None"
  shows "\<exists>a\<in>set (level h d n). \<exists>ch. Child h a nm = Some ch \<and>
           ch \<in> set (level h d (Suc n)) \<and> Find h d nm = Some (Some ch)"
proof -
  from split_list_first_prop [OF some]
  obtain pre x post where sp: "level h d n = pre @ x # post"
    and x: "Child h x nm \<noteq> None" and pre: "\<forall>y\<in>set pre. \<not> Child h y nm \<noteq> None"
    by blast
  from x obtain ch where ch: "Child h x nm = Some ch" by blast
  have xin: "x \<in> set (level h d n)" using sp by simp
  have "Find h d nm = Find_loop h nm (level h d n)"
    unfolding Find_def by (rule Find_loop_level [OF none])
  also have "\<dots> = Find_loop h nm (pre @ (x # post))" by (simp only: sp)
  also have "\<dots> = Find_loop h nm ((x # post) @ concat (map (kids h) pre))"
    using pre by (intro Find_loop_skip) simp
  also have "\<dots> = Some (Some ch)"
    using ch by (simp add: Find_loop_hit)
  finally have "Find h d nm = Some (Some ch)" .
  with xin ch Child_in_level [OF xin ch] show ?thesis by blast
qed

lemma Find_exhausted:
  assumes none: "\<forall>m<n. \<forall>a\<in>set (level h d m). Child h a nm = None"
    and empty: "level h d n = []"
  shows "Find h d nm = Some None"
  unfolding Find_def Find_loop_level [OF none] empty by (rule Find_loop_Nil)

lemma Find_result_level:
  assumes "Find h d nm = Some (Some c)"
  shows "\<exists>n. (\<forall>m<n. \<forall>a\<in>set (level h d m). Child h a nm = None) \<and>
             (\<exists>a\<in>set (level h d n). Child h a nm = Some c) \<and> c \<in> set (level h d (Suc n))"
proof -
  from Find_loop_sound [OF assms [unfolded Find_def]]
  have ex: "\<exists>n. \<exists>a\<in>set (level h d n). Child h a nm \<noteq> None" by auto
  define n where "n = (LEAST n. \<exists>a\<in>set (level h d n). Child h a nm \<noteq> None)"
  have some: "\<exists>a\<in>set (level h d n). Child h a nm \<noteq> None"
    unfolding n_def using ex by (rule LeastI_ex)
  have none: "\<forall>m<n. \<forall>a\<in>set (level h d m). Child h a nm = None"
    unfolding n_def using not_less_Least by blast
  from Find_first_level [OF none some] assms
  have "\<exists>a\<in>set (level h d n). Child h a nm = Some c" "c \<in> set (level h d (Suc n))"
    by auto
  with none show ?thesis by blast
qed

lemma wf_entries_D:
  assumes "wf_entries h" "a < length h" "(k, c) \<in> set (entries (h ! a))"
  shows "c < length h \<and> name (h ! c) = k"
proof -
  have "h ! a \<in> set h" using assms(2) by simp
  with assms(1) have "\<forall>kc\<in>set (entries (h ! a)). snd kc < length h \<and> name (h ! snd kc) = fst kc"
    unfolding wf_entries_def list_all_iff by blast
  with assms(3) show ?thesis by force
qed

lemma level_in_range:
  "wf_entries h \<Longrightarrow> d < length h \<Longrightarrow> a \<in> set (level h d n) \<Longrightarrow> a < length h"
proof (induction n arbitrary: a)
  case 0
  then show ?case by simp
next
  case (Suc n)
  from Suc.prems(3) obtain b where b: "b \<in> set (level h d n)" and a: "a \<in> set (kids h b)"
    by auto
  from Suc.IH [OF Suc.prems(1,2) b] have "b < length h" .
  with Suc.prems(1) a show ?case
    using wf_entries_D by fastforce
qed

lemma wf_entries_Child:
  assumes "wf_entries h" "a < length h" "Child h a nm = Some c"
  shows "c < length h \<and> name (h ! c) = nm"
proof -
  from assms(3) have "(nm, c) \<in> set (entries (h ! a))"
    by (simp add: Child_def map_of_SomeD)
  with assms(1,2) show ?thesis
    by (rule wf_entries_D)
qed

text \<open>
  C6 (as amended). \<open>Find\<close> searches the levels below the receiver in order and matches
  the keys of the children mappings. If no node at a depth below \<open>n\<close> has the name among
  its keys and some node at depth \<open>n\<close> has, the search returns a node registered under
  that name in a node at depth \<open>n\<close>, that is a node at depth \<open>n + 1\<close>. If no node down to
  an empty level has the name among its keys, the search returns nil. Whatever node the
  search returns was found in this way at the shallowest depth with a match; it is never
  the receiver when the receiver is not among its own descendants, whatever the
  receiver's name; and where every entry is keyed by the name of the node it points to,
  the node returned carries the name.
\<close>

theorem Find_breadth_first:
  "((\<forall>m<n. \<forall>a\<in>set (level h d m). Child h a nm = None) \<and>
    (\<exists>a\<in>set (level h d n). Child h a nm \<noteq> None) \<longrightarrow>
      (\<exists>a\<in>set (level h d n). \<exists>ch. Child h a nm = Some ch \<and>
         ch \<in> set (level h d (Suc n)) \<and> Find h d nm = Some (Some ch))) \<and>
   ((\<forall>m<n. \<forall>a\<in>set (level h d m). Child h a nm = None) \<and> level h d n = [] \<longrightarrow>
      Find h d nm = Some None) \<and>
   (\<forall>c. Find h d nm = Some (Some c) \<longrightarrow>
      (\<exists>k. (\<forall>m<k. \<forall>a\<in>set (level h d m). Child h a nm = None) \<and>
           (\<exists>a\<in>set (level h d k). Child h a nm = Some c) \<and> c \<in> set (level h d (Suc k)))) \<and>
   ((\<forall>k. d \<notin> set (level h d (Suc k))) \<longrightarrow> Find h d nm \<noteq> Some (Some d)) \<and>
   (wf_entries h \<and> d < length h \<longrightarrow>
      (\<forall>c. Find h d nm = Some (Some c) \<longrightarrow> c < length h \<and> name (h ! c) = nm))"
proof (intro conjI impI allI)
  assume "(\<forall>m<n. \<forall>a\<in>set (level h d m). Child h a nm = None) \<and>
    (\<exists>a\<in>set (level h d n). Child h a nm \<noteq> None)"
  then show "\<exists>a\<in>set (level h d n). \<exists>ch. Child h a nm = Some ch \<and>
         ch \<in> set (level h d (Suc n)) \<and> Find h d nm = Some (Some ch)"
    using Find_first_level by blast
next
  assume "(\<forall>m<n. \<forall>a\<in>set (level h d m). Child h a nm = None) \<and> level h d n = []"
  then show "Find h d nm = Some None"
    using Find_exhausted by blast
next
  fix c assume "Find h d nm = Some (Some c)"
  then show "\<exists>k. (\<forall>m<k. \<forall>a\<in>set (level h d m). Child h a nm = None) \<and>
           (\<exists>a\<in>set (level h d k). Child h a nm = Some c) \<and> c \<in> set (level h d (Suc k))"
    by (rule Find_result_level)
next
  assume no: "\<forall>k. d \<notin> set (level h d (Suc k))"
  show "Find h d nm \<noteq> Some (Some d)"
  proof
    assume "Find h d nm = Some (Some d)"
    from Find_result_level [OF this] no show False by blast
  qed
next
  fix c assume wf: "wf_entries h \<and> d < length h" and f: "Find h d nm = Some (Some c)"
  from Find_result_level [OF f] obtain k a where a: "a \<in> set (level h d k)"
    and c: "Child h a nm = Some c" by blast
  from wf a have "a < length h" using level_in_range by blast
  with wf c show "c < length h" "name (h ! c) = nm"
    using wf_entries_Child by blast+
qed


lemma level_heap_F:
  "level heap_F 0 0 = [0]"
  "level heap_F 0 (Suc 0) = [1, 2]"
  "level heap_F 0 (Suc (Suc 0)) = [3, 4, 5, 6, 7]"
  "level heap_F 0 (Suc (Suc (Suc 0))) = [8]"
  "level heap_F 0 (Suc (Suc (Suc (Suc 0)))) = []"
  "level heap_F (Suc 0) 0 = [Suc 0]"
  "level heap_F (Suc 0) (Suc 0) = [3, 4, 5]"
  "level heap_F (Suc 0) (Suc (Suc 0)) = [8]"
  "level heap_F (Suc 0) (Suc (Suc (Suc 0))) = []"
  by (simp_all add: heap_F_def entries_def)

lemma Child_heap_F:
  "Child heap_F 0 ''Ax-1'' = None" "Child heap_F (Suc 0) ''Ax-1'' = None" "Child heap_F 2 ''Ax-1'' = None"
  "Child heap_F 3 ''Ax-1'' = Some 8" "Child heap_F 4 ''Ax-1'' = None"
  "Child heap_F 5 ''Ax-1'' = None" "Child heap_F 6 ''Ax-1'' = None" "Child heap_F 7 ''Ax-1'' = None"
  "\<forall>a\<in>set [0, 1, 2, 3, 4, 5, 6, 7, 8]. Child heap_F a ''NoSuchName'' = None"
  "\<forall>a\<in>set [1, 3, 4, 5, 8]. Child heap_F a ''A'' = None"
  by (simp_all add: heap_F_def Child_def entries_def)

theorem Find_breadth_first_witness:
  "wf_entries heap_F \<and> 0 < length heap_F \<and>
   Find heap_F 0 ''Ax-1'' = Some (Some 8) \<and> name (heap_F ! 8) = ''Ax-1'' \<and>
   Find heap_F 0 ''NoSuchName'' = Some None \<and>
   name (heap_F ! 1) = ''A'' \<and> Find heap_F 1 ''A'' = Some None"
proof -
  have n1: "\<forall>m<Suc (Suc 0). \<forall>a\<in>set (level heap_F 0 m). Child heap_F a ''Ax-1'' = None"
    by (simp add: less_Suc_eq level_heap_F Child_heap_F del: level.simps)
  have s1: "\<exists>a\<in>set (level heap_F 0 (Suc (Suc 0))). Child heap_F a ''Ax-1'' \<noteq> None"
    by (simp add: level_heap_F Child_heap_F del: level.simps)
  from Find_breadth_first [where h = heap_F and d = 0 and nm = "''Ax-1''" and n = "Suc (Suc 0)"] n1 s1
  have "\<exists>a\<in>set (level heap_F 0 (Suc (Suc 0))). \<exists>ch. Child heap_F a ''Ax-1'' = Some ch \<and>
         ch \<in> set (level heap_F 0 (Suc (Suc (Suc 0)))) \<and> Find heap_F 0 ''Ax-1'' = Some (Some ch)"
    by blast
  then have 1: "Find heap_F 0 ''Ax-1'' = Some (Some 8)"
    by (simp add: level_heap_F Child_heap_F del: level.simps)
  have n2: "\<forall>m<Suc (Suc (Suc (Suc 0))). \<forall>a\<in>set (level heap_F 0 m). Child heap_F a ''NoSuchName'' = None"
    using Child_heap_F(9) by (simp add: less_Suc_eq level_heap_F del: level.simps)
  from Find_breadth_first [where h = heap_F and d = 0 and nm = "''NoSuchName''"
      and n = "Suc (Suc (Suc (Suc 0)))"] n2 level_heap_F(5)
  have 2: "Find heap_F 0 ''NoSuchName'' = Some None" by blast
  have n3: "\<forall>m<Suc (Suc (Suc 0)). \<forall>a\<in>set (level heap_F (Suc 0) m). Child heap_F a ''A'' = None"
    using Child_heap_F(10) by (simp add: less_Suc_eq level_heap_F del: level.simps)
  from Find_breadth_first [where h = heap_F and d = "Suc 0" and nm = "''A''"
      and n = "Suc (Suc (Suc 0))"] n3 level_heap_F(9)
  have "Find heap_F (Suc 0) ''A'' = Some None" by blast
  then have 3: "Find heap_F 1 ''A'' = Some None" by simp
  have wf: "wf_entries heap_F \<and> 0 < length heap_F"
    by (simp add: wf_entries_def heap_F_def entries_def)
  from Find_breadth_first [where h = heap_F and d = 0 and nm = "''Ax-1''"] wf 1
  have 4: "name (heap_F ! 8) = ''Ax-1''" by blast
  have "name (heap_F ! 1) = ''A''"
    by (simp add: heap_F_def)
  with 1 2 3 4 wf show ?thesis by blast
qed

text \<open>Counterexample to C6 as stated: after \<open>A\<close> was renamed to \<open>B\<close> the root's mapping
  still holds the node under \<open>A\<close>. The search for \<open>A\<close> returns that node, which carries
  the name \<open>B\<close>, and the search for \<open>B\<close> returns nil although a child carries that name.\<close>

theorem Find_key_counterexample:
  "parent (heap_B ! 1) = Some 0 \<and> name (heap_B ! 1) = ''B'' \<and>
   Find heap_B 0 ''A'' = Some (Some 1) \<and> Find heap_B 0 ''B'' = Some None"
  by (simp add: Find_def Find_loop_hit Find_loop_miss Find_loop_Nil heap_B_def Child_def
      entries_def)

section \<open>PathDelim\<close>

lemma reverse_loop_stop: "\<not> lt < rt \<Longrightarrow> reverse_loop parts lt rt = parts"
  by (subst reverse_loop.simps) simp

lemma reverse_loop_step:
  "lt < rt \<Longrightarrow> reverse_loop parts lt rt =
     reverse_loop (parts[lt := parts ! rt, rt := parts ! lt]) (Suc lt) (rt - 1)"
  by (subst reverse_loop.simps) simp

lemma reverse_loop_nth:
  "rt < length xs \<Longrightarrow>
   length (reverse_loop xs lt rt) = length xs \<and>
   (\<forall>i<length xs. reverse_loop xs lt rt ! i =
      (if lt \<le> i \<and> i \<le> rt then xs ! (lt + rt - i) else xs ! i))"
proof (induction xs lt rt rule: reverse_loop.induct)
  case (1 parts lt rt)
  show ?case
  proof (cases "lt < rt")
    case False
    have "\<forall>i<length parts. lt \<le> i \<and> i \<le> rt \<longrightarrow> lt + rt - i = i"
      using False by auto
    then show ?thesis using False by (simp add: reverse_loop_stop)
  next
    case True
    let ?ys = "parts[lt := parts ! rt, rt := parts ! lt]"
    have len: "length ?ys = length parts" by simp
    have ih: "length (reverse_loop ?ys (Suc lt) (rt - 1)) = length parts \<and>
      (\<forall>i<length parts. reverse_loop ?ys (Suc lt) (rt - 1) ! i =
         (if Suc lt \<le> i \<and> i \<le> rt - 1 then ?ys ! (Suc lt + (rt - 1) - i) else ?ys ! i))"
      using "1.IH" [OF True] True "1.prems" by simp
    have "reverse_loop parts lt rt ! i =
         (if lt \<le> i \<and> i \<le> rt then parts ! (lt + rt - i) else parts ! i)"
      if i: "i < length parts" for i
    proof -
      have r: "reverse_loop parts lt rt ! i =
         (if Suc lt \<le> i \<and> i \<le> rt - 1 then ?ys ! (Suc lt + (rt - 1) - i) else ?ys ! i)"
        using ih i by (simp add: reverse_loop_step [OF True])
      consider "i < lt" | "i = lt" | "lt < i \<and> i < rt" | "i = rt" | "rt < i" by linarith
      then show ?thesis
      proof cases
        case 1
        then have "\<not> Suc lt \<le> i" "i \<noteq> lt" "i \<noteq> rt" "\<not> lt \<le> i" using True by linarith+
        with r i show ?thesis by simp
      next
        case 2
        have "\<not> Suc lt \<le> lt" "lt \<noteq> rt" "lt + rt - lt = rt" "lt \<le> rt" using True by linarith+
        with 2 r True "1.prems" i show ?thesis by simp
      next
        case 3
        then have "Suc lt + (rt - 1) - i = lt + rt - i" "lt + rt - i \<noteq> lt" "lt + rt - i \<noteq> rt"
          "Suc lt \<le> i" "i \<le> rt - 1" "lt \<le> i" "i \<le> rt"
          by linarith+
        with r show ?thesis by simp
      next
        case 4
        have "\<not> rt \<le> rt - 1" "lt \<noteq> rt" "lt + rt - rt = lt" using True by linarith+
        with 4 r True "1.prems" i show ?thesis by simp
      next
        case 5
        then have "\<not> i \<le> rt - 1" "i \<noteq> lt" "i \<noteq> rt" "\<not> i \<le> rt" using True by linarith+
        with r i show ?thesis by simp
      qed
    qed
    with ih show ?thesis by (simp add: reverse_loop_step [OF True])
  qed
qed

lemma reverse_loop_rev: "reverse_loop xs 0 (length xs - 1) = rev xs"
proof (cases "xs = []")
  case True
  then show ?thesis by (simp add: reverse_loop_stop)
next
  case False
  then have r: "length xs - 1 < length xs" by simp
  note n = reverse_loop_nth [OF r, of 0]
  show ?thesis
  proof (rule nth_equalityI)
    show "length (reverse_loop xs 0 (length xs - 1)) = length (rev xs)"
      using n by simp
    fix i assume "i < length (reverse_loop xs 0 (length xs - 1))"
    then have i: "i < length xs" using n by simp
    then have "i \<le> length xs - 1" by linarith
    with i have "reverse_loop xs 0 (length xs - 1) ! i = xs ! (length xs - 1 - i)"
      using n by simp
    also have "\<dots> = rev xs ! i" using i by (simp add: rev_nth)
    finally show "reverse_loop xs 0 (length xs - 1) ! i = rev xs ! i" .
  qed
qed


lemma PathDelim_up_None: "PathDelim_up h None parts = Some parts"
  by (subst PathDelim_up.simps) simp

lemma PathDelim_up_Some:
  "PathDelim_up h (Some a) parts = PathDelim_up h (parent (h ! a)) (parts @ [name (h ! a)])"
  by (subst PathDelim_up.simps) simp

lemma path_nonempty: "path h d ns \<Longrightarrow> ns \<noteq> [] \<and> last ns = name (h ! d)"
  by (induction rule: path.induct) simp_all

lemma path_up:
  "path h d ns \<Longrightarrow> PathDelim_up h (parent (h ! d)) (parts @ [name (h ! d)]) = Some (parts @ rev ns)"
proof (induction arbitrary: parts rule: path.induct)
  case (root d h)
  then show ?case by (simp add: PathDelim_up_None)
next
  case (child d h p ns)
  have "PathDelim_up h (parent (h ! d)) (parts @ [name (h ! d)]) =
        PathDelim_up h (parent (h ! p)) ((parts @ [name (h ! d)]) @ [name (h ! p)])"
    using child.hyps(2) by (simp add: PathDelim_up_Some)
  also have "\<dots> = Some ((parts @ [name (h ! d)]) @ rev ns)"
    by (rule child.IH)
  finally show ?case by simp
qed

lemma path_PathDelim:
  assumes "path h d ns"
  shows "PathDelim h d delim = Some (Join ((if hd ns = delim then [] else hd ns) # tl ns) delim)"
proof -
  from path_nonempty [OF assms] have ne: "ns \<noteq> []" by simp
  then obtain x xs where ns: "ns = x # xs" by (cases ns) auto
  have up: "PathDelim_up h (parent (h ! d)) [name (h ! d)] = Some (rev ns)"
    using path_up [OF assms, of "[]"] by simp
  have rr: "reverse_loop (rev ns) 0 (length (rev ns) - 1) = ns"
    by (simp only: reverse_loop_rev rev_rev_ident)
  show ?thesis
    unfolding PathDelim_def up option.case Let_def rr
    by (simp add: ns)
qed

lemma Add_frame:
  assumes "a < length h" "Add h a nm = Return res h'"
  shows "length h \<le> length h' \<and>
         (\<forall>x<length h. name (h' ! x) = name (h ! x) \<and> parent (h' ! x) = parent (h ! x))"
  using assms
  by (auto simp: Add_def Let_def nth_upd nth_append split: if_splits)

lemma Add_child:
  assumes "a < length h" "Add h a nm = Return (Inr c) h'"
  shows "c = length h \<and> c < length h' \<and> name (h' ! c) = nm \<and> parent (h' ! c) = Some a"
  using assms
  by (auto simp: Add_def Let_def nth_upd nth_append split: if_splits)

lemma path_mono:
  assumes "path h x ms"
    and "length h \<le> length h'"
    and "\<forall>x<length h. name (h' ! x) = name (h ! x) \<and> parent (h' ! x) = parent (h ! x)"
  shows "path h' x ms"
  using assms
proof (induction rule: path.induct)
  case (root d h)
  then have "d < length h'" "parent (h' ! d) = None" "name (h' ! d) = name (h ! d)" by auto
  then show ?case using path.root [of d h'] by simp
next
  case (child d h p ns)
  then have "d < length h'" "parent (h' ! d) = Some p" "name (h' ! d) = name (h ! d)" "path h' p ns"
    by auto
  then show ?case using path.child [of d h' p ns] by simp
qed

lemma path_in_range: "path h d ns \<Longrightarrow> d < length h"
  by (induction rule: path.induct) simp_all

lemma Add_steps_path:
  "path h d ns \<Longrightarrow> Add_steps h d ss = Some (e, h') \<Longrightarrow> path h' e (ns @ downs ss)"
proof (induction ss arbitrary: h d ns)
  case Nil
  then show ?case by simp
next
  case (Cons s ss)
  show ?case
  proof (cases s)
    case (Down nm)
    have st: "(case Add h d nm of Return (Inr c) h' \<Rightarrow> Add_steps h' c ss | _ \<Rightarrow> None) = Some (e, h')"
      using Cons.prems(2) unfolding Down by simp
    obtain c h1 where a: "Add h d nm = Return (Inr c) h1"
      and r: "Add_steps h1 c ss = Some (e, h')"
    proof (cases "Add h d nm")
      case (Return res h1)
      with st that show ?thesis by (cases res) simp_all
    next
      case (Panic f h1)
      with st show ?thesis by simp
    qed
    have d: "d < length h" using Cons.prems(1) by (rule path_in_range)
    note f = Add_frame [OF d a] and c = Add_child [OF d a]
    have p: "path h1 d ns"
      by (rule path_mono [OF Cons.prems(1) f [THEN conjunct1] f [THEN conjunct2]])
    from c have "c < length h1" "parent (h1 ! c) = Some d" "name (h1 ! c) = nm" by blast+
    with path.child [of c h1 d ns] p have "path h1 c (ns @ [nm])" by simp
    from Cons.IH [OF this r] show ?thesis unfolding Down by simp
  next
    case (Side a nm)
    have st: "(if a < length h
               then (case Add h a nm of Return _ h' \<Rightarrow> Add_steps h' d ss | _ \<Rightarrow> None)
               else None) = Some (e, h')"
      using Cons.prems(2) unfolding Side by simp
    then have al: "a < length h" by (simp split: if_splits)
    obtain res h1 where a: "Add h a nm = Return res h1"
      and r: "Add_steps h1 d ss = Some (e, h')"
    proof (cases "Add h a nm")
      case (Return res h1)
      with st al that show ?thesis by simp
    next
      case (Panic f h1)
      with st al show ?thesis by simp
    qed
    note f = Add_frame [OF al a]
    have p: "path h1 d ns"
      by (rule path_mono [OF Cons.prems(1) f [THEN conjunct1] f [THEN conjunct2]])
    from Cons.IH [OF this r] show ?thesis unfolding Side by simp
  qed
qed

text \<open>
  C7. For a node reached from a root by \<^verbatim>\<open>Add\<close> calls, whatever other \<^verbatim>\<open>Add\<close> calls
  happen in between, \<open>PathDelim\<close> returns, and its result is the root's name and the
  names added on the way down, joined by the delimiter, with the empty string in place
  of the root's name when that name is the delimiter. \<open>Path\<close> is \<open>PathDelim\<close> with the
  delimiter \<open>/\<close>.
\<close>

theorem PathDelim_Add_chain:
  assumes "r < length h" "parent (h ! r) = None" "Add_steps h r ss = Some (d, h')"
  shows "PathDelim h' d delim =
           Some (Join ((if name (h ! r) = delim then [] else name (h ! r)) # downs ss) delim) \<and>
         Path h' d = PathDelim h' d ''/''"
proof -
  have "path h r [name (h ! r)]" using assms(1,2) by (rule path.root)
  from Add_steps_path [OF this assms(3)] have "path h' d (name (h ! r) # downs ss)" by simp
  from path_PathDelim [OF this] show ?thesis by (simp add: Path_def)
qed


theorem PathDelim_Add_chain_witness:
  "0 < length heap_P0 \<and> parent (heap_P0 ! 0) = None \<and> name (heap_P0 ! 0) = ''/'' \<and>
   Add_steps heap_P0 0 [Down ''a''] = Some (1, heap_P1) \<and>
   PathDelim heap_P1 1 ''/'' = Some ''/a'' \<and> Path heap_P1 1 = Some ''/a'' \<and>
   PathDelim heap_P1 1 ''.'' = Some ''/.a'' \<and>
   (\<exists>h'. Add_steps heap_E 0
            [Down ''A'', Side 0 ''B'', Side 1 ''Ax'', Down ''Ay'', Side 2 ''Bx'', Side 2 ''By'',
             Side 4 ''Ay-1'', Down ''Ay-2''] = Some (8, h') \<and>
         Path h' 8 = Some ''/A/Ay/Ay-2'')"
proof -
  have a: "0 < length heap_P0" "parent (heap_P0 ! 0) = None"
    and n: "name (heap_P0 ! 0) = ''/''"
    by (simp_all add: heap_P0_def)
  have s: "Add_steps heap_P0 0 [Down ''a''] = Some (1, heap_P1)"
    by (simp add: eval_defs heap_P0_def heap_P1_def)
  from PathDelim_Add_chain [OF a s, of "''/''"] n
  have 1: "PathDelim heap_P1 1 ''/'' = Some ''/a''" "Path heap_P1 1 = Some ''/a''"
    by simp_all
  from PathDelim_Add_chain [OF a s, of "''.''"] n
  have 2: "PathDelim heap_P1 1 ''.'' = Some ''/.a''"
    by simp
  have b: "0 < length heap_E" "parent (heap_E ! 0) = None"
    and m: "name (heap_E ! 0) = []"
    by (simp_all add: heap_E_def)
  obtain h' where t: "Add_steps heap_E 0
            [Down ''A'', Side 0 ''B'', Side 1 ''Ax'', Down ''Ay'', Side 2 ''Bx'', Side 2 ''By'',
             Side 4 ''Ay-1'', Down ''Ay-2''] = Some (8, h')"
    by (simp add: eval_defs heap_E_def)
  from PathDelim_Add_chain [OF b t, of "''/''"] m
  have 3: "Path h' 8 = Some ''/A/Ay/Ay-2''"
    by simp
  from a n s 1 2 t 3 show ?thesis by blast
qed

section \<open>Sort and SortReverse\<close>

lemma mset_sift: "mset (sift lessf x acc) = add_mset x (mset acc)"
  by (induction acc) auto

lemma mset_insertion_loop: "mset (insertion_loop lessf acc xs) = mset acc + mset xs"
  by (induction xs arbitrary: acc) (auto simp: mset_sift)

lemma mset_insertionSort: "mset (insertionSort lessf xs) = mset xs"
  by (simp add: insertionSort_def mset_insertion_loop)

lemma set_sift: "set (sift lessf x acc) = insert x (set acc)"
  by (induction acc) auto

lemma sorted_sift:
  assumes tr: "\<And>a b c. \<not> lessf a b \<Longrightarrow> \<not> lessf b c \<Longrightarrow> \<not> lessf a c"
    and asym: "\<And>a b. lessf a b \<Longrightarrow> \<not> lessf b a"
  shows "sorted_wrt (\<lambda>a b. \<not> lessf a b) acc \<Longrightarrow> sorted_wrt (\<lambda>a b. \<not> lessf a b) (sift lessf x acc)"
proof (induction acc)
  case Nil
  then show ?case by simp
next
  case (Cons y ys)
  show ?case
  proof (cases "lessf x y")
    case True
    then show ?thesis using Cons asym by (auto simp: set_sift)
  next
    case False
    then show ?thesis using Cons tr by auto
  qed
qed

lemma sorted_insertion_loop:
  assumes tr: "\<And>a b c. \<not> lessf a b \<Longrightarrow> \<not> lessf b c \<Longrightarrow> \<not> lessf a c"
    and asym: "\<And>a b. lessf a b \<Longrightarrow> \<not> lessf b a"
  shows "sorted_wrt (\<lambda>a b. \<not> lessf a b) acc \<Longrightarrow>
         sorted_wrt (\<lambda>a b. \<not> lessf b a) (insertion_loop lessf acc xs)"
proof (induction xs arbitrary: acc)
  case Nil
  then show ?case by (simp add: sorted_wrt_rev)
next
  case (Cons x xs)
  show ?case using Cons.IH [OF sorted_sift [OF tr asym Cons.prems]] by simp
qed

lemma sorted_Sort: "sorted (map (\<lambda>a. String (h ! a)) (Sort h xs))"
proof -
  have "sorted_wrt (\<lambda>a b. \<not> Less h b a) (insertion_loop (Less h) [] xs)"
    by (rule sorted_insertion_loop) (auto simp: Less_def)
  then show ?thesis
    by (simp add: Sort_def insertionSort_def sorted_map Less_def not_less)
qed

lemma sorted_SortReverse: "sorted (rev (map (\<lambda>a. String (h ! a)) (SortReverse h xs)))"
proof -
  have "sorted_wrt (\<lambda>a b. \<not> Less h a b) (insertion_loop (\<lambda>a b. Less h b a) [] xs)"
    by (rule sorted_insertion_loop) (auto simp: Less_def)
  then have "sorted_wrt (\<lambda>a b. String (h ! b) \<le> String (h ! a)) (SortReverse h xs)"
    by (simp add: SortReverse_def insertionSort_def Less_def not_less)
  then show ?thesis
    by (simp add: sorted_wrt_rev sorted_wrt_map flip: rev_map)
qed

lemma sorted_perm_unique:
  assumes "sorted (map f xs)" "sorted (map f ys)" "mset xs = mset ys" "distinct (map f xs)"
  shows "xs = ys"
proof -
  have m: "mset (map f xs) = mset (map f ys)" using assms(3) by simp
  then have d: "distinct (map f ys)" using assms(4) by (metis mset_eq_imp_distinct_iff)
  have s: "set (map f xs) = set (map f ys)" using m by (metis set_mset_mset)
  have e: "map f xs = map f ys"
    using assms(1) assms(4) assms(2) d s by (rule sorted_distinct_set_unique)
  have "inj_on f (set xs \<union> set ys)"
    using assms(3,4) by (metis distinct_map mset_eq_setD sup.idem)
  with e show ?thesis by (simp add: inj_on_map_eq_map)
qed

text \<open>
  C8 (as amended). \<open>Sort\<close> leaves a permutation of the slice in ascending order of the
  display strings and \<open>SortReverse\<close> one in descending order. On nodes with pairwise
  different display strings the two are mutual inverses: each result is the reverse of
  the other, and sorting one result the other way gives the other result.
\<close>

theorem Sort_SortReverse:
  "sorted (map (\<lambda>a. String (h ! a)) (Sort h xs)) \<and> mset (Sort h xs) = mset xs \<and>
   sorted (rev (map (\<lambda>a. String (h ! a)) (SortReverse h xs))) \<and> mset (SortReverse h xs) = mset xs \<and>
   (distinct (map (\<lambda>a. String (h ! a)) xs) \<longrightarrow>
      Sort h xs = rev (SortReverse h xs) \<and> SortReverse h xs = rev (Sort h xs) \<and>
      Sort h (SortReverse h xs) = Sort h xs \<and> SortReverse h (Sort h xs) = SortReverse h xs)"
proof -
  let ?f = "\<lambda>a. String (h ! a)"
  have ms: "mset (Sort h ys) = mset ys" for ys by (simp add: Sort_def mset_insertionSort)
  have mr: "mset (SortReverse h ys) = mset ys" for ys by (simp add: SortReverse_def mset_insertionSort)
  have sr: "sorted (map ?f (rev (SortReverse h ys)))" for ys
    using sorted_SortReverse [of h ys] by (simp add: rev_map)
  have u: "distinct (map ?f xs) \<Longrightarrow> Sort h xs = rev (SortReverse h xs)"
  proof -
    assume d: "distinct (map ?f xs)"
    have "distinct (map ?f (Sort h xs))"
      using d ms [of xs] by (metis mset_eq_imp_distinct_iff mset_map)
    then show ?thesis
      by (intro sorted_perm_unique [where f = ?f] sorted_Sort sr) (simp_all add: ms mr)
  qed
  have v: "distinct (map ?f xs) \<Longrightarrow> Sort h (SortReverse h xs) = Sort h xs"
  proof -
    assume d: "distinct (map ?f xs)"
    have "distinct (map ?f (Sort h (SortReverse h xs)))"
      using d ms [of "SortReverse h xs"] mr [of xs] by (metis mset_eq_imp_distinct_iff mset_map)
    then show ?thesis
      by (intro sorted_perm_unique [where f = ?f] sorted_Sort) (simp_all add: ms mr)
  qed
  have w: "distinct (map ?f xs) \<Longrightarrow> SortReverse h (Sort h xs) = SortReverse h xs"
  proof -
    assume d: "distinct (map ?f xs)"
    have "distinct (map ?f (rev (SortReverse h (Sort h xs))))"
      using d ms [of xs] mr [of "Sort h xs"] by (metis mset_eq_imp_distinct_iff mset_map mset_rev)
    then have "rev (SortReverse h (Sort h xs)) = rev (SortReverse h xs)"
      by (intro sorted_perm_unique [where f = ?f] sr) (simp_all add: ms mr)
    then show ?thesis by simp
  qed
  show ?thesis
    using sorted_Sort [of h xs] sorted_SortReverse [of h xs] ms [of xs] mr [of xs] u v w
    by (auto simp: rev_swap)
qed

theorem Sort_SortReverse_witness:
  "distinct (map (\<lambda>a. String (heap_C ! a)) [1, 2, 3, 4, 5, 6]) \<and>
   Sort heap_C [1, 2, 3, 4, 5, 6] = [4, 6, 5, 2, 3, 1] \<and>
   SortReverse heap_C [1, 2, 3, 4, 5, 6] = [1, 3, 2, 5, 6, 4] \<and>
   Sort heap_C [1, 2, 3, 4, 5, 6] = rev (SortReverse heap_C [1, 2, 3, 4, 5, 6]) \<and>
   Sort heap_C (SortReverse heap_C [1, 2, 3, 4, 5, 6]) = Sort heap_C [1, 2, 3, 4, 5, 6]"
proof -
  have d: "distinct (map (\<lambda>a. String (heap_C ! a)) [1, 2, 3, 4, 5, 6])"
    by (simp add: heap_C_def String_def)
  have s: "Sort heap_C [1, 2, 3, 4, 5, 6] = [4, 6, 5, 2, 3, 1]"
    by code_simp
  have r: "SortReverse heap_C [1, 2, 3, 4, 5, 6] = [1, 3, 2, 5, 6, 4]"
    by code_simp
  from Sort_SortReverse [of heap_C "[1, 2, 3, 4, 5, 6]"] d
  have "Sort heap_C [1, 2, 3, 4, 5, 6] = rev (SortReverse heap_C [1, 2, 3, 4, 5, 6]) \<and>
        Sort heap_C (SortReverse heap_C [1, 2, 3, 4, 5, 6]) = Sort heap_C [1, 2, 3, 4, 5, 6]"
    by blast
  with d s r show ?thesis by blast
qed

text \<open>Counterexample to C8 as stated: the unnamed root and the root named \<open>/\<close> have
  different names and the same display string; both sorts leave the slice of the two as
  it is, so neither result is the reverse of the other.\<close>

theorem Sort_sentinel_counterexample:
  "distinct (map (\<lambda>a. name (heap_S ! a)) [0, 1]) \<and>
   Sort heap_S [0, 1] = [0, 1] \<and> SortReverse heap_S [0, 1] = [0, 1]"
  by (simp add: heap_S_def Sort_def SortReverse_def insertionSort_def Less_def String_def)


section \<open>Tree rendering\<close>

lemma Tree_worked_example:
  "Tree heap_T 0 = Some (Inr
     ''.\<newline>|-- A\<newline>|   |-- Ax\<newline>|   `-- Ay\<newline>|       |-- Ay-1\<newline>|       `-- Ay-2\<newline>`-- B\<newline>    |-- Bx\<newline>    `-- By'')"
  by code_simp

text \<open>
  C5. The rendering of the worked example is the expected text (lemma
  \<open>Tree_worked_example\<close>). The connector is not reset when the loop comes back from a
  deeper level: on the root \<open>.\<close> with children \<open>A\<close> (with child \<open>Ax\<close>), \<open>B\<close> and \<open>C\<close>, the
  line of \<open>B\<close>, which has the following sibling \<open>C\<close>, carries the connector of a last
  sibling.
\<close>

theorem Tree_stale_connector:
  "Tree heap_T3 0 = Some (Inr ''.\<newline>|-- A\<newline>|   `-- Ax\<newline>`-- B\<newline>`-- C'')"
  by code_simp

end
